theory Spec2Isabelle
  imports Complex_Main "HOL-Library.Sublist"
begin

section \<open>Python values\<close>

text \<open>
  A Python \<open>str\<close> is a sequence of code points, here natural numbers. A literal of the
  source is written \<open>lit ''...''\<close>; the arrow of the attribution line (U+2197) is the one
  code point of the templates outside ASCII. Surrogate code points (0xD800 to 0xDFFF) can
  stand alone in a Python \<open>str\<close> (\<open>json.loads\<close> makes them from an escape such as
  \<open>\ud83d\<close>), and the UTF-8 codec refuses them.
\<close>

type_synonym pystr = "nat list"

definition lit :: "string \<Rightarrow> pystr" where
  "lit s = map of_char s"

datatype error =
  KeyError | IndexError | TypeError | JSONDecodeError | UnicodeDecodeError
  | UnicodeEncodeError | OSError

text \<open>A statement that raises ends the computation: \<open>Inl\<close> is the exception raised.\<close>

fun ebind :: "error + 'a \<Rightarrow> ('a \<Rightarrow> error + 'b) \<Rightarrow> error + 'b" where
  "ebind (Inl e) f = Inl e"
| "ebind (Inr x) f = f x"

text \<open>
  The values of a tweet record's fields, as JSON decoding gives them: \<open>None\<close>, a
  \<open>bool\<close>, an \<open>int\<close> or a \<open>str\<close> (the spec's record has strings and boolean-like
  values; floating-point numbers and nested containers are outside this model).
\<close>

datatype pyval = PNone | PBool bool | PInt int | PStr pystr

text \<open>Python's truth value of an object, as \<open>if v\<close> and \<open>not v\<close> test it.\<close>

fun truthy :: "pyval \<Rightarrow> bool" where
  "truthy PNone = False"
| "truthy (PBool b) = b"
| "truthy (PInt i) = (i \<noteq> 0)"
| "truthy (PStr s) = (s \<noteq> [])"

text \<open>\<open>str(n)\<close> of a non-negative \<open>int\<close>: its decimal digits.\<close>

fun dec :: "nat \<Rightarrow> pystr" where
  "dec n = (if n < 10 then [48 + n] else dec (n div 10) @ [48 + n mod 10])"

declare dec.simps [simp del]

text \<open>What an f-string or \<open>str.format\<close> field with no format spec puts for a value: \<open>str(v)\<close>.\<close>

fun py_str :: "pyval \<Rightarrow> pystr" where
  "py_str PNone = lit ''None''"
| "py_str (PBool b) = (if b then lit ''True'' else lit ''False'')"
| "py_str (PInt i) = (if i < 0 then 45 # dec (nat (- i)) else dec (nat i))"
| "py_str (PStr s) = s"

text \<open>A tweet record is a \<open>dict\<close>; \<open>tweet[key]\<close> raises \<open>KeyError\<close> on a missing key.\<close>

type_synonym tweet = "pystr \<rightharpoonup> pyval"

definition getitem :: "tweet \<Rightarrow> string \<Rightarrow> error + pyval" where
  "getitem tweet key = (case tweet (lit key) of None \<Rightarrow> Inl KeyError | Some v \<Rightarrow> Inr v)"

text \<open>\<open>xs[index]\<close> on a list, for an index that is not negative.\<close>

definition item :: "'a list \<Rightarrow> nat \<Rightarrow> error + 'a" where
  "item xs index = (if index < length xs then Inr (xs ! index) else Inl IndexError)"

text \<open>\<open>key.replace(" ", "_")\<close>: every space becomes an underscore.\<close>

definition replace_spaces :: "pystr \<Rightarrow> pystr" where
  "replace_spaces s = map (\<lambda>c. if c = 32 then 95 else c) s"

text \<open>
  The text a sequence of statements \<open>html += ...\<close> appends, or the first exception one
  of them raises; and the same for the body of a \<open>for\<close> loop run over a list.
\<close>

fun for_each :: "('a \<Rightarrow> error + pystr) \<Rightarrow> 'a list \<Rightarrow> error + pystr" where
  "for_each body [] = Inr []"
| "for_each body (x # xs) =
     ebind (body x) (\<lambda>h. ebind (for_each body xs) (\<lambda>t. Inr (h @ t)))"

definition html_block :: "(error + pystr) list \<Rightarrow> error + pystr" where
  "html_block stmts = for_each (\<lambda>s. s) stmts"

section \<open>The paginator\<close>

definition tweets_per_page :: nat where
  "tweets_per_page = 24"

definition total_pages :: "nat \<Rightarrow> nat" where
  "total_pages n = (n + tweets_per_page - 1) div tweets_per_page"

definition start_index :: "nat \<Rightarrow> nat" where
  "start_index page = (page - 1) * tweets_per_page"

definition end_index :: "nat \<Rightarrow> nat \<Rightarrow> nat" where
  "end_index n page = min (start_index page + tweets_per_page) n"

text \<open>\<open>range(start_index, end_index)\<close>: the indices of the records of a page.\<close>

definition page_indices :: "nat \<Rightarrow> nat \<Rightarrow> nat list" where
  "page_indices n page = [start_index page ..< end_index n page]"

text \<open>\<open>range(1, total_pages + 1)\<close>: the pages of a list of \<open>n\<close> records.\<close>

definition page_numbers :: "nat \<Rightarrow> nat list" where
  "page_numbers n = [1 ..< total_pages n + 1]"

text \<open>The records a page shows, in the order the inner loop reads them.\<close>

definition page_records :: "'a list \<Rightarrow> nat \<Rightarrow> 'a list" where
  "page_records json_path page = map (\<lambda>index. json_path ! index) (page_indices (length json_path) page)"

section \<open>The document renderer\<close>

text \<open>
  \<open>generate\<close> builds the document by appending to \<open>html\<close>. Each definition below is the
  text that a group of its statements appends, with the line numbers of
  \<open>waybacktweets/api/visualize.py\<close>; a lookup that raises makes the whole group raise.
  The helper \<open>timestamp_parser\<close> of \<open>waybacktweets.utils\<close> is not part of the file: it
  is the parameter \<open>timestamp_parser\<close>, from a field's value to the text its result is
  formatted as.
\<close>

text \<open>Lines 60 to 102: everything before the first page.\<close>

definition html_head :: "pystr \<Rightarrow> pystr" where
  \<open>html_head username =
     concat [
       lit ''<!DOCTYPE html>\<newline>'',
       lit ''<html lang="en">\<newline>'',
       lit ''<!-- This document was generated by Wayback Tweets. Visit: https://claromes.github.io/waybacktweets -->\<newline>'',
       lit ''<head>'',
       lit ''<meta charset="UTF-8">\<newline>'',
       lit ''<meta name="viewport" content="width=device-width, initial-scale=1.0">\<newline>'',
       lit ''<title>@'' @ username @ lit '''s archived tweets</title>\<newline>'',
       lit ''<style>\<newline>'',
       lit ''body { font-family: monospace; background-color: whitesmoke; color: #1c1e21; margin: 0; padding: 20px; }\<newline>'',
       lit ''.container { display: flex; flex-wrap: wrap; gap: 20px; }\<newline>'',
       lit ''.tweet { flex: 0 1 calc(33.33% - 20px); background-color: #ffffff; border: 1px solid #e2e2e2; border-radius: 10px; padding: 15px; overflow-wrap: break-word; margin: auto; width: 600px; }\<newline>'',
       lit ''.tweet strong { font-weight: bold; }\<newline>'',
       lit ''.tweet a { color: #000000; text-decoration: none; }\<newline>'',
       lit ''.content { color: #000000; }\<newline>'',
       lit ''.source { font-size: 12px; text-align: center; }\<newline>'',
       lit ''.tweet a:hover { text-decoration: underline; }\<newline>'',
       lit ''h1, h3 { text-align: center; }\<newline>'',
       lit ''iframe { width: 600px; height: 600px; }\<newline>'',
       lit ''input { position: absolute; opacity: 0; z-index: -1; }\<newline>'',
       lit ''.accordion { margin: 10px; border-radius: 5px; overflow: hidden; box-shadow: 0 4px 4px -2px rgba(0, 0, 0, 0.4); }\<newline>'',
       lit ''.accordion-label { display: flex; justify-content: space-between; padding: 1em; font-weight: bold; cursor: pointer; background: #000000; color: #ffffff; }\<newline>'',
       lit ''.accordion-content { max-height: 0; padding: 0 1em; background: white; transition: all 0.35s; }\<newline>'',
       lit ''input:checked ~ .accordion-content { max-height: 100vh; padding: 1em; }\<newline>'',
       lit ''.pagination { text-align: center; margin-top: 20px; }\<newline>'',
       lit ''.pagination a { margin: 0 5px; text-decoration: none; color: #000000; padding: 1px 2px; border-radius: 5px; }\<newline>'',
       lit ''.pagination a:hover { background-color: #e2e2e2; }\<newline>'',
       lit ''.pagination a.selected { background-color: #e2e2e2; color: #000000; font-weight: bold; }\<newline>'',
       lit ''</style>\<newline>'',
       lit ''</head>\<newline><body>\<newline>'',
       lit ''<h1>@'' @ username @ lit '''s archived tweets</h1>\<newline>'',
       lit ''<p id="loading_first_page">Building pagination with JavaScript...</p>\<newline>'']\<close>

text \<open>Lines 105 to 108: a page's hidden container and its grid are opened.\<close>

definition page_open :: "nat \<Rightarrow> pystr" where
  \<open>page_open page =
     concat [
       lit ''<div id="page_'' @ dec page @ lit ''" style="display:none;">\<newline>'',
       lit ''<div class="container">\<newline>'']\<close>

text \<open>
  Lines 126 to 150, the body of the loop over \<open>iframe_src.items()\<close>: one collapsible
  section, with the script that sets the frame's source when the section is opened.
\<close>

definition accordion :: "nat \<Rightarrow> string \<Rightarrow> pyval \<Rightarrow> pystr" where
  \<open>accordion index key value =
    (let key_cleaned = replace_spaces (lit key) in
     concat [
       lit ''<div class="accordion">\<newline>'',
       lit ''<input type="checkbox" id="tab_'' @ dec index @ lit ''_'' @ key_cleaned @ lit ''" />\<newline>'',
       lit ''<label class="accordion-label" for="tab_'' @ dec index @ lit ''_'' @ key_cleaned @ lit ''">Click to load the iframe from '' @ lit key @ lit ''</label>\<newline>'',
       lit ''<div class="accordion-content">\<newline>'',
       lit ''<div id="loading_'' @ dec index @ lit ''_'' @ key_cleaned @ lit ''" class="loading">Loading...</div>\<newline>'',
       lit ''<iframe id="iframe_'' @ dec index @ lit ''_'' @ key_cleaned @ lit ''" frameborder="0" scrolling="auto" loading="lazy" style="display: none;" onload="document.getElementById('loading_'' @ dec index @ lit ''_'' @ key_cleaned @ lit ''').style.display='none'; this.style.display='block';"></iframe>\<newline>'',
       lit ''</div>\<newline>'',
       lit ''</div>\<newline>'',
       concat [
         lit ''\<newline>'',
         lit ''                        <script>\<newline>'',
         lit ''                        // Loads the src attribute of the iframe tag\<newline>'',
         lit ''                        document.getElementById('tab_'' @ dec index @ lit ''_'' @ key_cleaned @ lit ''').addEventListener('change', function() {\<newline>'',
         lit ''                            if (this.checked) {\<newline>'',
         lit ''                                document.getElementById('loading_'' @ dec index @ lit ''_'' @ key_cleaned @ lit ''').style.display = 'block';\<newline>'',
         lit ''                                document.getElementById('iframe_'' @ dec index @ lit ''_'' @ key_cleaned @ lit ''').src = '' @ [39] @ py_str value @ lit ''';\<newline>'',
         lit ''                            }\<newline>'',
         lit ''                        });\<newline>'',
         lit ''                        </script>\<newline>'',
         lit ''                        '']])\<close>

text \<open>Lines 118 to 123: the dict \<open>iframe_src\<close>, its items in insertion order.\<close>

definition iframe_src :: "tweet \<Rightarrow> error + (string \<times> pyval) list" where
  "iframe_src tweet =
     ebind (getitem tweet ''archived_tweet_url'') (\<lambda>archived.
     ebind (getitem tweet ''parsed_archived_tweet_url'') (\<lambda>parsed_archived.
     ebind (getitem tweet ''original_tweet_url'') (\<lambda>original.
     ebind (getitem tweet ''parsed_tweet_url'') (\<lambda>parsed.
       Inr [(''Archived Tweet'', archived),
            (''Parsed Archived Tweet'', parsed_archived),
            (''Original Tweet'', original),
            (''Parsed Tweet'', parsed)]))))"

text \<open>Lines 117 to 150: the four collapsible sections, when the tweet's text is falsy.\<close>

definition accordions :: "nat \<Rightarrow> tweet \<Rightarrow> error + pystr" where
  "accordions index tweet =
     ebind (getitem tweet ''available_tweet_text'') (\<lambda>text.
       if \<not> truthy text then
         ebind (iframe_src tweet) (\<lambda>src.
           for_each (\<lambda>(key, value). Inr (accordion index key value)) src)
       else Inr [])"

text \<open>Lines 152 to 156: the plain-text content fields, when the tweet's text is truthy.\<close>

definition available_content :: "tweet \<Rightarrow> error + pystr" where
  \<open>available_content tweet =
     ebind (getitem tweet ''available_tweet_text'') (\<lambda>text.
       if truthy text then
         html_block [
           Inr (lit ''<br>\<newline>''),
           ebind (getitem tweet ''available_tweet_text'') (\<lambda>v.
             Inr (lit ''<p><strong class="content">Available Tweet Content:</strong> '' @ py_str v @ lit ''</p>\<newline>'')),
           ebind (getitem tweet ''available_tweet_is_RT'') (\<lambda>v.
             Inr (lit ''<p><strong class="content">Available Tweet Is Retweet:</strong> '' @ py_str v @ lit ''</p>\<newline>'')),
           ebind (getitem tweet ''available_tweet_info'') (\<lambda>v.
             Inr (lit ''<p><strong class="content">Available Tweet Username:</strong> '' @ py_str v @ lit ''</p>\<newline>''))]
       else Inr [])\<close>

text \<open>Lines 158 to 171: the fields every card shows, and the end of the card.\<close>

definition archived_fields :: "(pyval \<Rightarrow> pystr) \<Rightarrow> tweet \<Rightarrow> error + pystr" where
  \<open>archived_fields timestamp_parser tweet =
     html_block [
       Inr (lit ''<br>\<newline>''),
       ebind (getitem tweet ''archived_tweet_url'') (\<lambda>u. ebind (getitem tweet ''archived_tweet_url'') (\<lambda>v.
         Inr (lit ''<p><strong>Archived Tweet:</strong> <a href="'' @ py_str u @ lit ''" target="_blank">'' @ py_str v @ lit ''</a></p>\<newline>''))),
       ebind (getitem tweet ''parsed_archived_tweet_url'') (\<lambda>u. ebind (getitem tweet ''parsed_archived_tweet_url'') (\<lambda>v.
         Inr (lit ''<p><strong>Parsed Archived Tweet:</strong> <a href="'' @ py_str u @ lit ''" target="_blank">'' @ py_str v @ lit ''</a></p>\<newline>''))),
       ebind (getitem tweet ''original_tweet_url'') (\<lambda>u. ebind (getitem tweet ''original_tweet_url'') (\<lambda>v.
         Inr (lit ''<p><strong>Original Tweet:</strong> <a href="'' @ py_str u @ lit ''" target="_blank">'' @ py_str v @ lit ''</a></p>\<newline>''))),
       ebind (getitem tweet ''parsed_tweet_url'') (\<lambda>u. ebind (getitem tweet ''parsed_tweet_url'') (\<lambda>v.
         Inr (lit ''<p><strong>Parsed Tweet:</strong> <a href="'' @ py_str u @ lit ''" target="_blank">'' @ py_str v @ lit ''</a></p>\<newline>''))),
       ebind (getitem tweet ''archived_urlkey'') (\<lambda>v.
         Inr (lit ''<p><strong>Archived URL Key:</strong> '' @ py_str v @ lit ''</p>\<newline>'')),
       ebind (getitem tweet ''archived_timestamp'') (\<lambda>u. ebind (getitem tweet ''archived_timestamp'') (\<lambda>v.
         Inr (lit ''<p><strong>Archived Timestamp:</strong> '' @ timestamp_parser u @ lit '' ('' @ py_str v @ lit '')</p>\<newline>''))),
       ebind (getitem tweet ''archived_mimetype'') (\<lambda>v.
         Inr (lit ''<p><strong>Archived mimetype:</strong> '' @ py_str v @ lit ''</p>\<newline>'')),
       ebind (getitem tweet ''archived_statuscode'') (\<lambda>v.
         Inr (lit ''<p><strong>Archived Statuscode:</strong> '' @ py_str v @ lit ''</p>\<newline>'')),
       ebind (getitem tweet ''archived_digest'') (\<lambda>v.
         Inr (lit ''<p><strong>Archived Digest:</strong> '' @ py_str v @ lit ''\<newline>'')),
       ebind (getitem tweet ''archived_length'') (\<lambda>v.
         Inr (lit ''<p><strong>Archived Length:</strong> '' @ py_str v @ lit ''</p>\<newline>'')),
       Inr (lit ''</div>\<newline>'')]\<close>

text \<open>Lines 114 to 171, the body of the loop over a page's indices: one tweet card.\<close>

definition tweet_card :: "(pyval \<Rightarrow> pystr) \<Rightarrow> tweet list \<Rightarrow> nat \<Rightarrow> error + pystr" where
  \<open>tweet_card timestamp_parser json_path index =
     ebind (item json_path index) (\<lambda>tweet.
       html_block [
         Inr (lit ''<div class="tweet">\<newline>''),
         accordions index tweet,
         available_content tweet,
         archived_fields timestamp_parser tweet])\<close>

text \<open>Lines 104 to 173, the body of the loop over the pages: one page.\<close>

definition page_html :: "(pyval \<Rightarrow> pystr) \<Rightarrow> tweet list \<Rightarrow> nat \<Rightarrow> error + pystr" where
  \<open>page_html timestamp_parser json_path page =
     html_block [
       Inr (page_open page),
       for_each (tweet_card timestamp_parser json_path) (page_indices (length json_path) page),
       Inr (lit ''</div>\<newline></div>\<newline>'')]\<close>

text \<open>Line 180, the body of the second loop over the pages: one pagination link.\<close>

definition page_link :: "nat \<Rightarrow> pystr" where
  \<open>page_link page =
     concat [
       lit ''<a href="#" id="page_link_'' @ dec page @ lit ''" onclick="showPage('' @ dec page @ lit '')">'' @ dec page @ lit ''</a>\<newline>'']\<close>

text \<open>Lines 183 to 209: the attribution line, the pagination script and the end.\<close>

definition html_tail :: "nat \<Rightarrow> pystr" where
  \<open>html_tail pages =
     concat [
       lit ''<br><p class="source">generated by <a href="https://claromes.github.io/waybacktweets/" target="_blank">Wayback Tweets'' @ [8599] @ lit ''</a></p>\<newline>'',
       concat [
         lit ''\<newline>'',
         lit ''        <script>\<newline>'',
         lit ''        // Function to show the selected page and hide the others\<newline>'',
         lit ''        function showPage(page) {\<newline>'',
         lit ''            for (let i = 1; i <= '' @ dec pages @ lit ''; i++) {\<newline>'',
         lit ''                document.getElementById('page_' + i).style.display = 'none';\<newline>'',
         lit ''                document.getElementById('page_link_' + i).classList.remove('selected');\<newline>'',
         lit ''            }\<newline>'',
         lit ''\<newline>'',
         lit ''            document.getElementById('page_' + page).style.display = 'block';\<newline>'',
         lit ''            document.getElementById('page_link_' + page).classList.add('selected');\<newline>'',
         lit ''        }\<newline>'',
         lit ''\<newline>'',
         lit ''        // Initializes the page to show only the first page\<newline>'',
         lit ''        document.addEventListener('DOMContentLoaded', (event) => {\<newline>'',
         lit ''            showPage(1); // Shows only the first page on load\<newline>'',
         lit ''            document.getElementById('loading_first_page').style.display = 'none';\<newline>'',
         lit ''        });\<newline>'',
         lit ''        </script>\<newline>'',
         lit ''        ''],
       lit ''</body>\<newline>'',
       lit ''</html>'']\<close>

text \<open>
  The builder: \<open>json_path\<close> holds the loaded records, not the path, once \<open>__init__\<close>
  has run; \<open>html_file_path\<close> is \<open>None\<close> unless the caller gives a path.
\<close>

record builder =
  username :: pystr
  json_path :: "tweet list"
  html_file_path :: "pystr option"

text \<open>Lines 50 to 211: \<open>generate\<close>, the document or the exception raised.\<close>

definition generate :: "(pyval \<Rightarrow> pystr) \<Rightarrow> builder \<Rightarrow> error + pystr" where
  \<open>generate timestamp_parser self =
     html_block [
       Inr (html_head (username self)),
       for_each (page_html timestamp_parser (json_path self)) (page_numbers (length (json_path self))),
       Inr (lit ''<br>\<newline>''),
       Inr (lit ''<div class="pagination">\<newline>''),
       for_each (\<lambda>page. Inr (page_link page)) (page_numbers (length (json_path self))),
       Inr (lit ''</div>\<newline>''),
       Inr (html_tail (total_pages (length (json_path self))))]\<close>

section \<open>The record loader and the persister\<close>

text \<open>
  The file system: the regular files with their bytes, and the paths that
  \<open>open(path, "w")\<close> can open. Opening a regular file for reading succeeds, and text is
  written as on a platform whose line separator is \<open>\n\<close> (no newline translation).
\<close>

record filesystem =
  files :: "pystr \<rightharpoonup> nat list"
  writable :: "pystr \<Rightarrow> bool"

definition isfile :: "filesystem \<Rightarrow> pystr \<Rightarrow> bool" where
  "isfile fs path = (files fs path \<noteq> None)"

text \<open>
  Lines 44 to 48: \<open>_json_loader\<close>. Python's decoding of a file's bytes as UTF-8 text and
  \<open>json.loads\<close> are the parameters \<open>read_utf8\<close> and \<open>json_loads\<close>; \<open>json.load(f)\<close> is
  \<open>json.loads\<close> of the text read from \<open>f\<close>.
\<close>

definition json_loader ::
  "(nat list \<Rightarrow> error + pystr) \<Rightarrow> (pystr \<Rightarrow> error + 'j) \<Rightarrow> filesystem \<Rightarrow> pystr \<Rightarrow> error + 'j" where
  "json_loader read_utf8 json_loads fs source =
     (if isfile fs source then
        (case files fs source of
           Some bytes \<Rightarrow> ebind (read_utf8 bytes) json_loads
         | None \<Rightarrow> Inl OSError)
      else json_loads source)"

text \<open>Lines 23 to 31: \<open>__init__\<close>; \<open>out_path\<close> is \<open>None\<close> when the caller gives no path.\<close>

definition init ::
  "(nat list \<Rightarrow> error + pystr) \<Rightarrow> (pystr \<Rightarrow> error + tweet list) \<Rightarrow> filesystem
     \<Rightarrow> pystr \<Rightarrow> pystr \<Rightarrow> pystr option \<Rightarrow> error + builder" where
  "init read_utf8 json_loads fs user source out_path =
     ebind (json_loader read_utf8 json_loads fs source) (\<lambda>loaded.
       Inr \<lparr>username = user, json_path = loaded, html_file_path = out_path\<rparr>)"

text \<open>
  Python's UTF-8 encoder, one code point at a time: it raises \<open>UnicodeEncodeError\<close> on a
  surrogate. (A Python \<open>str\<close> holds no number from 0x110000 on.)
\<close>

definition utf8_char :: "nat \<Rightarrow> error + nat list" where
  "utf8_char c =
     (if c < 0x80 then Inr [c]
      else if c < 0x800 then Inr [0xC0 + c div 64, 0x80 + c mod 64]
      else if 0xD800 \<le> c \<and> c < 0xE000 then Inl UnicodeEncodeError
      else if c < 0x10000 then
        Inr [0xE0 + c div 4096, 0x80 + c div 64 mod 64, 0x80 + c mod 64]
      else if c < 0x110000 then
        Inr [0xF0 + c div 262144, 0x80 + c div 4096 mod 64, 0x80 + c div 64 mod 64,
             0x80 + c mod 64]
      else Inl UnicodeEncodeError)"

definition utf8_encode :: "pystr \<Rightarrow> error + nat list" where
  "utf8_encode s = for_each utf8_char s"

text \<open>
  Lines 213 to 221: \<open>save\<close>, its outcome and the file system after it. \<open>open(None, "w")\<close>
  raises \<open>TypeError\<close>; \<open>open(path, "w")\<close> empties the file before anything is written,
  and \<open>f.write\<close> encodes the whole text before it writes a byte of it.
\<close>

definition save :: "builder \<Rightarrow> pystr \<Rightarrow> filesystem \<Rightarrow> (error + unit) \<times> filesystem" where
  "save self html_content fs =
     (case html_file_path self of
        None \<Rightarrow> (Inl TypeError, fs)
      | Some path \<Rightarrow>
          if \<not> writable fs path then (Inl OSError, fs)
          else
            (case utf8_encode html_content of
               Inl e \<Rightarrow> (Inl e, fs\<lparr>files := (files fs)(path \<mapsto> [])\<rparr>)
             | Inr bytes \<Rightarrow> (Inr (), fs\<lparr>files := (files fs)(path \<mapsto> bytes)\<rparr>)))"

text \<open>The code points the UTF-8 encoder accepts: the Unicode scalar values.\<close>

definition scalar :: "nat \<Rightarrow> bool" where
  "scalar c = (c < 0xD800 \<or> (0xE000 \<le> c \<and> c < 0x110000))"

text \<open>
  The fields \<open>generate\<close> looks up in every record, and the two more it looks up when
  the record's \<open>available_tweet_text\<close> is truthy; a record misses a field when one of
  these keys is not in the dict.
\<close>

definition required_fields :: "string list" where
  "required_fields =
     [''available_tweet_text'', ''archived_tweet_url'', ''parsed_archived_tweet_url'',
      ''original_tweet_url'', ''parsed_tweet_url'', ''archived_urlkey'', ''archived_timestamp'',
      ''archived_mimetype'', ''archived_statuscode'', ''archived_digest'', ''archived_length'']"

definition content_fields :: "string list" where
  "content_fields = [''available_tweet_is_RT'', ''available_tweet_info'']"

definition missing_field :: "tweet \<Rightarrow> bool" where
  "missing_field tweet =
     (list_ex (\<lambda>key. tweet (lit key) = None) required_fields
      \<or> (case tweet (lit ''available_tweet_text'') of
            Some text \<Rightarrow> truthy text \<and> list_ex (\<lambda>key. tweet (lit key) = None) content_fields
          | None \<Rightarrow> False))"

text \<open>An outcome that is a value or a \<open>KeyError\<close>.\<close>

definition key_only :: "error + 'a \<Rightarrow> bool" where
  "key_only m = (isl m \<longrightarrow> projl m = KeyError)"

text \<open>A record with every field, for the examples; \<open>text\<close> is its \<open>available_tweet_text\<close>.\<close>

definition sample_tweet :: "pyval \<Rightarrow> tweet" where
  "sample_tweet text = map_of
     [(lit ''available_tweet_text'', text),
      (lit ''available_tweet_is_RT'', PBool False),
      (lit ''available_tweet_info'', PStr (lit ''jack'')),
      (lit ''archived_tweet_url'', PStr (lit ''https://web.archive.org/web/2006/https://twitter.com/jack/status/20'')),
      (lit ''parsed_archived_tweet_url'', PStr (lit ''https://web.archive.org/web/2006/https://twitter.com/jack/status/20'')),
      (lit ''original_tweet_url'', PStr (lit ''https://twitter.com/jack/status/20'')),
      (lit ''parsed_tweet_url'', PStr (lit ''https://twitter.com/jack/status/20'')),
      (lit ''archived_urlkey'', PStr (lit ''com,twitter)/jack/status/20'')),
      (lit ''archived_timestamp'', PStr (lit ''20060321205014'')),
      (lit ''archived_mimetype'', PStr (lit ''text/html'')),
      (lit ''archived_statuscode'', PStr (lit ''200'')),
      (lit ''archived_digest'', PStr (lit ''AAAA'')),
      (lit ''archived_length'', PInt 1024)]"

section \<open>Markup in a text\<close>

text \<open>
  The places where a piece of markup occurs in a text: for each, the text that follows
  it. The attribute value at such a place is what follows up to the next double quote.
\<close>

fun occurrences :: "'a list \<Rightarrow> 'a list \<Rightarrow> 'a list list" where
  "occurrences p [] = []"
| "occurrences p (c # s) =
     (if prefix p (c # s) then [drop (length p) (c # s)] else []) @ occurrences p s"


text \<open>A text ends inside a possible occurrence: one of its ends begins the markup.\<close>

fun dangling :: "'a list \<Rightarrow> 'a list \<Rightarrow> bool" where
  "dangling p [] = False"
| "dangling p (c # s) = (strict_prefix (c # s) p \<or> dangling p s)"

definition quiet :: "'a list \<Rightarrow> 'a list \<Rightarrow> bool" where
  "quiet p s = (occurrences p s = [] \<and> \<not> dangling p s)"

text \<open>The markup that opens a page container, a pagination link, a collapsible section
  and a plain-text content field.\<close>

definition page_marker :: pystr where
  \<open>page_marker = lit ''<div id="page_''\<close>

definition link_marker :: pystr where
  \<open>link_marker = lit ''<a href="#" id="page_link_''\<close>

definition accordion_marker :: pystr where
  \<open>accordion_marker = lit ''<div class="accordion">''\<close>

definition content_marker :: pystr where
  \<open>content_marker = lit ''<strong class="content">''\<close>

text \<open>A text with no \<open><\<close> in it.\<close>

definition tag_free :: "pystr \<Rightarrow> bool" where
  "tag_free s = (60 \<notin> set s)"

text \<open>
  A text with a given number of occurrences of a piece of markup and no dangling end, so
  that what is appended to it adds its own occurrences and nothing else.
\<close>

definition counted :: "'a list \<Rightarrow> nat \<Rightarrow> 'a list \<Rightarrow> bool" where
  "counted p n s = (length (occurrences p s) = n \<and> \<not> dangling p s)"

text \<open>
  A text in which the occurrences of a piece of markup are followed by the given values,
  each free of double quotes and closed by one.
\<close>

definition tagged :: "pystr \<Rightarrow> pystr list \<Rightarrow> pystr \<Rightarrow> bool" where
  "tagged p vs s =
     (\<not> dangling p s \<and> list_all (\<lambda>v. 34 \<notin> set v) vs
      \<and> (\<exists>rests. length rests = length vs
            \<and> occurrences p s = map (\<lambda>(v, r). v @ 34 # r) (zip vs rests)))"

text \<open>The value of a field of a record (\<open>None\<close> for a key that is not there).\<close>

definition field :: "tweet \<Rightarrow> string \<Rightarrow> pyval" where
  "field tweet key = (case tweet (lit key) of Some v \<Rightarrow> v | None \<Rightarrow> PNone)"


definition url_fields :: "string list" where
  "url_fields =
     [''archived_tweet_url'', ''parsed_archived_tweet_url'', ''original_tweet_url'',
      ''parsed_tweet_url'']"



text \<open>What holds of the value of a computation, when it returns one.\<close>

definition returns :: "error + 'a \<Rightarrow> ('a \<Rightarrow> bool) \<Rightarrow> bool" where
  "returns m Q = (case m of Inl e \<Rightarrow> True | Inr x \<Rightarrow> Q x)"

text \<open>A record with every field and a falsy text, whose mimetype holds markup.\<close>

definition markup_tweet :: tweet where
  "markup_tweet =
     (sample_tweet (PStr []))(lit ''archived_mimetype'' \<mapsto> PStr (lit ''<div class=\"accordion\">''))"




text \<open>
  A text \<open>b\<close> that cannot continue markup begun before it: whatever nonempty end of
  \<open>q\<close> is considered, it and \<open>b\<close> differ at a place both have.
\<close>

fun sealed :: "'a list \<Rightarrow> 'a list \<Rightarrow> bool" where
  "sealed [] b = True"
| "sealed (c # q) b = (\<not> prefix (c # q) b \<and> \<not> prefix b (c # q) \<and> sealed q b)"

text \<open>
  A text in which the occurrences of a piece of markup continue with the given texts, in
  this order, and which has no dangling end.
\<close>

definition opened :: "'a list \<Rightarrow> 'a list list \<Rightarrow> 'a list \<Rightarrow> bool" where
  "opened p vs s =
     (\<not> dangling p s
      \<and> (\<exists>rests. length rests = length vs
            \<and> occurrences p s = map (\<lambda>(v, r). v @ r) (zip vs rests)))"

text \<open>
  The texts a card takes from its record, one for each time the card writes it, in the
  order of writing: line 144, in each of the four sections, when the record's text is
  falsy, or lines 154 to 156 when it is truthy; then lines 159 to 170.
\<close>

definition card_texts :: "(pyval \<Rightarrow> pystr) \<Rightarrow> tweet \<Rightarrow> pystr list" where
  "card_texts timestamp_parser tweet =
     (if \<not> truthy (field tweet ''available_tweet_text'')
      then map (\<lambda>key. py_str (field tweet key)) url_fields
      else map (\<lambda>key. py_str (field tweet key)) (''available_tweet_text'' # content_fields))
     @ concat (map (\<lambda>key. [py_str (field tweet key), py_str (field tweet key)]) url_fields)
     @ [py_str (field tweet ''archived_urlkey''),
        timestamp_parser (field tweet ''archived_timestamp''),
        py_str (field tweet ''archived_timestamp''),
        py_str (field tweet ''archived_mimetype''),
        py_str (field tweet ''archived_statuscode''),
        py_str (field tweet ''archived_digest''),
        py_str (field tweet ''archived_length'')]"

section \<open>Pagination arithmetic\<close>

lemma total_pages_ceiling: "int (total_pages n) = \<lceil>real n / 24\<rceil>"
proof -
  have "\<lceil>real n / 24\<rceil> = \<lceil>real_of_int (int n) / real_of_int 24\<rceil>"
    by simp
  also have "\<dots> = - (- int n div 24)"
    by (rule ceiling_divide_eq_div)
  also have "\<dots> = int ((n + 23) div 24)"
    by linarith
  finally show ?thesis
    by (simp add: total_pages_def tweets_per_page_def)
qed


lemma page_indices_range:
  "1 \<le> page \<Longrightarrow> page_indices n page = [(page - 1) * 24 ..< min (page * 24) n]"
proof -
  assume "1 \<le> page"
  then have "(page - 1) * 24 + 24 = page * 24"
    by (cases page) simp_all
  then show ?thesis
    by (simp add: page_indices_def start_index_def end_index_def tweets_per_page_def)
qed

lemma concat_page_indices_upto:
  "concat (map (page_indices n) [1 ..< Suc k]) = [0 ..< min (k * 24) n]"
proof (induction k)
  case 0
  show ?case by simp
next
  case (Suc k)
  have step: "page_indices n (Suc k) = [k * 24 ..< min (Suc k * 24) n]"
    using page_indices_range [of "Suc k" n] by simp
  show ?case
  proof (cases "k * 24 \<le> n")
    case True
    then have "[0 ..< min (Suc k * 24) n] = [0 ..< k * 24] @ [k * 24 ..< min (Suc k * 24) n]"
      by (metis le_add1 upt_add_eq_append le_iff_add min.boundedI mult_Suc add.commute zero_le)
    with True Suc step show ?thesis by (simp add: min_def)
  next
    case False
    with Suc step show ?thesis by (simp add: min_def)
  qed
qed

lemma total_pages_covers: "n \<le> total_pages n * 24"
  by (simp add: total_pages_def tweets_per_page_def)

lemma concat_page_indices: "concat (map (page_indices n) (page_numbers n)) = [0 ..< n]"
  using concat_page_indices_upto [of n "total_pages n"] total_pages_covers [of n]
  by (simp add: page_numbers_def min_def)

lemma concat_page_records: "concat (map (page_records records) (page_numbers (length records))) = records"
proof -
  have "concat (map (page_records records) (page_numbers (length records)))
      = map (\<lambda>index. records ! index) (concat (map (page_indices (length records)) (page_numbers (length records))))"
    by (simp add: page_records_def [abs_def] map_concat comp_def)
  also have "\<dots> = records"
    by (simp add: concat_page_indices map_nth)
  finally show ?thesis .
qed

section \<open>The record loader\<close>

text \<open>
  Claim C5. If the input names an existing file, the loader reads the file as UTF-8 text
  and returns the value \<open>json.loads\<close> decodes from it; otherwise it returns the value
  \<open>json.loads\<close> decodes from the input itself; and in either branch an error of
  \<open>json.loads\<close> on that text is the loader's own outcome: nothing catches it.
\<close>

theorem json_loader_branches:
  "(isfile fs source \<longrightarrow>
      (\<exists>bytes. files fs source = Some bytes
         \<and> json_loader read_utf8 json_loads fs source = ebind (read_utf8 bytes) json_loads))
   \<and> (\<not> isfile fs source \<longrightarrow> json_loader read_utf8 json_loads fs source = json_loads source)
   \<and> (\<forall>text e.
        json_loads text = Inl e
        \<and> ((\<exists>bytes. files fs source = Some bytes \<and> read_utf8 bytes = Inr text)
             \<or> (files fs source = None \<and> text = source))
        \<longrightarrow> json_loader read_utf8 json_loads fs source = Inl e)"
  by (auto simp: json_loader_def isfile_def)

theorem json_loader_branches_witness:
  "json_loader Inr (\<lambda>text. if text = lit ''[]'' then Inr (0 :: nat) else Inl JSONDecodeError)
      \<lparr>files = [lit ''a.json'' \<mapsto> lit ''[]'', lit ''b.json'' \<mapsto> lit ''{''], writable = (\<lambda>path. True)\<rparr>
      (lit ''a.json'') = Inr 0
   \<and> json_loader Inr (\<lambda>text. if text = lit ''[]'' then Inr (0 :: nat) else Inl JSONDecodeError)
      \<lparr>files = [lit ''a.json'' \<mapsto> lit ''[]'', lit ''b.json'' \<mapsto> lit ''{''], writable = (\<lambda>path. True)\<rparr>
      (lit ''b.json'') = Inl JSONDecodeError
   \<and> json_loader Inr (\<lambda>text. if text = lit ''[]'' then Inr (0 :: nat) else Inl JSONDecodeError)
      \<lparr>files = [lit ''a.json'' \<mapsto> lit ''[]'', lit ''b.json'' \<mapsto> lit ''{''], writable = (\<lambda>path. True)\<rparr>
      (lit ''[]'') = Inr 0"
  using
    json_loader_branches [of
      "\<lparr>files = [lit ''a.json'' \<mapsto> lit ''[]'', lit ''b.json'' \<mapsto> lit ''{''], writable = (\<lambda>path. True)\<rparr>"
      "lit ''a.json''" Inr "\<lambda>text. if text = lit ''[]'' then Inr (0 :: nat) else Inl JSONDecodeError"]
    json_loader_branches [of
      "\<lparr>files = [lit ''a.json'' \<mapsto> lit ''[]'', lit ''b.json'' \<mapsto> lit ''{''], writable = (\<lambda>path. True)\<rparr>"
      "lit ''b.json''" Inr "\<lambda>text. if text = lit ''[]'' then Inr (0 :: nat) else Inl JSONDecodeError"]
    json_loader_branches [of
      "\<lparr>files = [lit ''a.json'' \<mapsto> lit ''[]'', lit ''b.json'' \<mapsto> lit ''{''], writable = (\<lambda>path. True)\<rparr>"
      "lit ''[]''" Inr "\<lambda>text. if text = lit ''[]'' then Inr (0 :: nat) else Inl JSONDecodeError"]
  by (simp add: isfile_def lit_def)

section \<open>The persister\<close>

lemma utf8_char_scalar: "scalar c \<Longrightarrow> \<exists>bytes. utf8_char c = Inr bytes"
  by (auto simp: scalar_def utf8_char_def)

lemma for_each_returns:
  "(\<And>x. x \<in> set xs \<Longrightarrow> \<exists>y. body x = Inr y) \<Longrightarrow> \<exists>out. for_each body xs = Inr out"
proof (induction xs)
  case Nil
  show ?case by simp
next
  case (Cons x xs)
  then obtain y out where "body x = Inr y" "for_each body xs = Inr out"
    by (metis list.set_intros)
  then show ?case by simp
qed

lemma utf8_encode_scalar: "\<forall>c\<in>set s. scalar c \<Longrightarrow> \<exists>bytes. utf8_encode s = Inr bytes"
  unfolding utf8_encode_def by (rule for_each_returns) (simp add: utf8_char_scalar)

lemma utf8_encode_surrogate:
  "utf8_encode s = Inr bytes \<Longrightarrow> c \<in> set s \<Longrightarrow> \<not> (0xD800 \<le> c \<and> c < 0xE000)"
  unfolding utf8_encode_def
proof (induction s arbitrary: bytes)
  case Nil
  then show ?case by simp
next
  case (Cons x s)
  from Cons.prems(1) obtain h t where h: "utf8_char x = Inr h" and t: "for_each utf8_char s = Inr t"
    by (cases "utf8_char x"; cases "for_each utf8_char s") simp_all
  show ?case
  proof (cases "c = x")
    case True
    with h show ?thesis by (auto simp: utf8_char_def split: if_splits)
  next
    case False
    with Cons.prems(2) have "c \<in> set s" by simp
    with Cons.IH t show ?thesis by blast
  qed
qed

lemma utf8_char_error: "utf8_char c = Inl e \<Longrightarrow> e = UnicodeEncodeError"
  by (auto simp: utf8_char_def split: if_splits)

lemma utf8_char_refuses: "\<not> scalar c \<Longrightarrow> utf8_char c = Inl UnicodeEncodeError"
  by (auto simp: scalar_def utf8_char_def)

lemma utf8_encode_refuses:
  "\<exists>c\<in>set s. \<not> scalar c \<Longrightarrow> utf8_encode s = Inl UnicodeEncodeError"
  unfolding utf8_encode_def
proof (induction s)
  case Nil
  then show ?case by simp
next
  case (Cons x s)
  show ?case
  proof (cases "utf8_char x")
    case (Inl e)
    then show ?thesis
      by (simp add: utf8_char_error)
  next
    case (Inr h)
    then have "scalar x"
      using utf8_char_refuses [of x] by auto
    with Cons.prems have "\<exists>c\<in>set s. \<not> scalar c"
      by auto
    with Cons.IH Inr show ?thesis
      by simp
  qed
qed

text \<open>
  Claim C7, as amended. Text is written as on a platform whose line separator is \<open>\n\<close>
  (no newline translation). For every string \<open>s\<close> and every configured path that can be
  opened for writing: when \<open>s\<close> holds Unicode scalar values only (no surrogate code
  point), \<open>save(s)\<close> returns normally and leaves, at that path, exactly the UTF-8
  encoding of \<open>s\<close>, whatever the file held before, and reading the path back gives
  these bytes; when \<open>s\<close> holds a surrogate, \<open>save(s)\<close> raises \<open>UnicodeEncodeError\<close> and
  leaves the file empty. Every other file is as it was.
\<close>

theorem save_writes:
  assumes "html_file_path self = Some path" and "writable fs path"
  shows "(if \<forall>c\<in>set s. scalar c
          then \<exists>bytes. utf8_encode s = Inr bytes
                 \<and> fst (save self s fs) = Inr ()
                 \<and> files (snd (save self s fs)) path = Some bytes
          else fst (save self s fs) = Inl UnicodeEncodeError
                 \<and> files (snd (save self s fs)) path = Some [])
         \<and> (\<forall>other. other \<noteq> path \<longrightarrow> files (snd (save self s fs)) other = files fs other)"
proof (cases "\<forall>c\<in>set s. scalar c")
  case True
  then obtain bytes where "utf8_encode s = Inr bytes"
    using utf8_encode_scalar by blast
  with assms True show ?thesis
    by (simp add: save_def)
next
  case False
  then have "utf8_encode s = Inl UnicodeEncodeError"
    using utf8_encode_refuses by blast
  with assms False show ?thesis
    by (simp add: save_def)
qed

theorem save_writes_witness:
  "utf8_encode (lit ''<p>caf'' @ [233, 8599]) = Inr [60, 112, 62, 99, 97, 102, 195, 169, 226, 134, 151]
   \<and> fst (save \<lparr>username = [], json_path = [], html_file_path = Some (lit ''out.html'')\<rparr>
         (lit ''<p>caf'' @ [233, 8599])
         \<lparr>files = [lit ''out.html'' \<mapsto> [111, 108, 100]], writable = (\<lambda>path. True)\<rparr>) = Inr ()
   \<and> files (snd (save \<lparr>username = [], json_path = [], html_file_path = Some (lit ''out.html'')\<rparr>
         (lit ''<p>caf'' @ [233, 8599])
         \<lparr>files = [lit ''out.html'' \<mapsto> [111, 108, 100]], writable = (\<lambda>path. True)\<rparr>)) (lit ''out.html'')
       = Some [60, 112, 62, 99, 97, 102, 195, 169, 226, 134, 151]
   \<and> fst (save \<lparr>username = [], json_path = [], html_file_path = Some (lit ''out.html'')\<rparr>
         (lit ''caf'' @ [0xDC80])
         \<lparr>files = [lit ''out.html'' \<mapsto> [111, 108, 100]], writable = (\<lambda>path. True)\<rparr>)
       = Inl UnicodeEncodeError
   \<and> files (snd (save \<lparr>username = [], json_path = [], html_file_path = Some (lit ''out.html'')\<rparr>
         (lit ''caf'' @ [0xDC80])
         \<lparr>files = [lit ''out.html'' \<mapsto> [111, 108, 100]], writable = (\<lambda>path. True)\<rparr>)) (lit ''out.html'')
       = Some []"
proof -
  let ?self = "\<lparr>username = [], json_path = [], html_file_path = Some (lit ''out.html'')\<rparr>"
  let ?fs = "\<lparr>files = [lit ''out.html'' \<mapsto> [111, 108, 100]], writable = (\<lambda>path. True)\<rparr>"
  have enc: "utf8_encode (lit ''<p>caf'' @ [233, 8599]) = Inr [60, 112, 62, 99, 97, 102, 195, 169, 226, 134, 151]"
    by (simp add: utf8_encode_def utf8_char_def lit_def)
  have good: "\<forall>c\<in>set (lit ''<p>caf'' @ [233, 8599]). scalar c"
    by (simp add: scalar_def lit_def)
  have bad: "\<not> (\<forall>c\<in>set (lit ''caf'' @ [0xDC80]). scalar c)"
    by (simp add: scalar_def lit_def)
  have path: "html_file_path ?self = Some (lit ''out.html'')" and can_open: "writable ?fs (lit ''out.html'')"
    by simp_all
  from save_writes [OF path can_open, of "lit ''<p>caf'' @ [233, 8599]"] good enc
  have first: "fst (save ?self (lit ''<p>caf'' @ [233, 8599]) ?fs) = Inr ()
      \<and> files (snd (save ?self (lit ''<p>caf'' @ [233, 8599]) ?fs)) (lit ''out.html'')
        = Some [60, 112, 62, 99, 97, 102, 195, 169, 226, 134, 151]"
    by simp
  from save_writes [OF path can_open, of "lit ''caf'' @ [0xDC80]"] bad
  have "fst (save ?self (lit ''caf'' @ [0xDC80]) ?fs) = Inl UnicodeEncodeError
      \<and> files (snd (save ?self (lit ''caf'' @ [0xDC80]) ?fs)) (lit ''out.html'') = Some []"
    by simp
  with first enc show ?thesis
    by simp
qed

text \<open>
  The claim as stated fails on a string with a lone surrogate: the encoder raises, and the
  file that was there is left empty.
\<close>

theorem save_surrogate_counterexample:
  "save \<lparr>username = [], json_path = [], html_file_path = Some (lit ''out.html'')\<rparr>
     [0xD83D]
     \<lparr>files = [lit ''out.html'' \<mapsto> [111, 108, 100]], writable = (\<lambda>path. True)\<rparr>
   = (Inl UnicodeEncodeError,
      \<lparr>files = [lit ''out.html'' \<mapsto> []], writable = (\<lambda>path. True)\<rparr>)"
  by (simp add: save_def utf8_encode_def utf8_char_def)

text \<open>
  Claim C10. A builder constructed without an output path has \<open>html_file_path = None\<close>;
  then \<open>save(s)\<close>, for every string \<open>s\<close>, raises (\<open>TypeError\<close>, from \<open>open\<close>) and leaves
  the file system as it was: no fallback path, and no silent return.
\<close>

theorem save_without_path:
  "(init read_utf8 json_loads fs0 user source None = Inr self \<longrightarrow> html_file_path self = None)
   \<and> (html_file_path self = None \<longrightarrow> save self html_content fs = (Inl TypeError, fs))"
  by (cases "json_loader read_utf8 json_loads fs0 source") (auto simp: init_def save_def)

theorem save_without_path_witness:
  "init Inr (\<lambda>text. Inr []) \<lparr>files = Map.empty, writable = (\<lambda>path. True)\<rparr> (lit ''jack'') (lit ''[]'') None
     = Inr \<lparr>username = lit ''jack'', json_path = [], html_file_path = None\<rparr>
   \<and> save \<lparr>username = lit ''jack'', json_path = [], html_file_path = None\<rparr> (lit ''<html>'')
        \<lparr>files = Map.empty, writable = (\<lambda>path. True)\<rparr>
     = (Inl TypeError, \<lparr>files = Map.empty, writable = (\<lambda>path. True)\<rparr>)"
  using save_without_path [of Inr "\<lambda>text. Inr []" "\<lparr>files = Map.empty, writable = (\<lambda>path. True)\<rparr>"
      "lit ''jack''" "lit ''[]''" "\<lparr>username = lit ''jack'', json_path = [], html_file_path = None\<rparr>"
      "lit ''<html>''" "\<lparr>files = Map.empty, writable = (\<lambda>path. True)\<rparr>"]
  by (simp add: init_def json_loader_def isfile_def)

section \<open>Failure of the render\<close>

lemma ebind_unfold: "ebind m f = (if isl m then Inl (projl m) else f (projr m))"
  by (cases m) simp_all

lemma isl_ebind [simp]: "isl (ebind m f) \<longleftrightarrow> isl m \<or> isl (f (projr m))"
  by (cases m) simp_all

lemma key_only_Inr [simp]: "key_only (Inr x)"
  by (simp add: key_only_def)

lemma key_only_ebind: "key_only m \<Longrightarrow> (\<And>x. key_only (f x)) \<Longrightarrow> key_only (ebind m f)"
  by (cases m) (simp_all add: key_only_def)

lemma key_only_getitem [simp]: "key_only (getitem tweet key)"
  by (simp add: key_only_def getitem_def split: option.splits)

lemma isl_getitem [simp]: "isl (getitem tweet key) \<longleftrightarrow> tweet (lit key) = None"
  by (simp add: getitem_def split: option.splits)

lemma projr_getitem: "tweet (lit key) = Some v \<Longrightarrow> projr (getitem tweet key) = v"
  by (simp add: getitem_def)

lemma isl_for_each [simp]: "isl (for_each body xs) \<longleftrightarrow> (\<exists>x\<in>set xs. isl (body x))"
  by (induction xs) auto

lemma key_only_for_each: "(\<And>x. x \<in> set xs \<Longrightarrow> key_only (body x)) \<Longrightarrow> key_only (for_each body xs)"
proof (induction xs)
  case Nil
  show ?case by simp
next
  case (Cons x xs)
  then have "key_only (body x)" "key_only (for_each body xs)"
    by simp_all
  then show ?case
    by (simp add: key_only_ebind)
qed

lemma isl_html_block [simp]: "isl (html_block stmts) \<longleftrightarrow> list_ex isl stmts"
  by (simp add: html_block_def list_ex_iff)

lemma key_only_html_block: "list_all key_only stmts \<Longrightarrow> key_only (html_block stmts)"
  unfolding html_block_def by (rule key_only_for_each) (simp add: list_all_iff)

lemma key_only_if: "key_only a \<Longrightarrow> key_only b \<Longrightarrow> key_only (if c then a else b)"
  by simp

lemmas key_only_intros =
  key_only_ebind key_only_for_each key_only_html_block key_only_if

lemma key_only_accordions: "key_only (accordions index tweet)"
  unfolding accordions_def iframe_src_def
  by (intro key_only_intros) (simp_all split: prod.splits)

lemma key_only_available_content: "key_only (available_content tweet)"
  unfolding available_content_def
  by (intro key_only_intros) (simp_all add: key_only_ebind)

lemma key_only_archived_fields: "key_only (archived_fields timestamp_parser tweet)"
  unfolding archived_fields_def
  by (intro key_only_intros) (simp_all add: key_only_ebind)

lemma isl_accordions:
  "isl (accordions index tweet) \<longleftrightarrow>
     tweet (lit ''available_tweet_text'') = None
     \<or> (\<not> truthy (the (tweet (lit ''available_tweet_text'')))
         \<and> (tweet (lit ''archived_tweet_url'') = None \<or> tweet (lit ''parsed_archived_tweet_url'') = None
            \<or> tweet (lit ''original_tweet_url'') = None \<or> tweet (lit ''parsed_tweet_url'') = None))"
  by (cases "tweet (lit ''available_tweet_text'')")
     (auto simp: accordions_def iframe_src_def projr_getitem split: prod.splits)

lemma isl_available_content:
  "isl (available_content tweet) \<longleftrightarrow>
     tweet (lit ''available_tweet_text'') = None
     \<or> (truthy (the (tweet (lit ''available_tweet_text'')))
         \<and> (tweet (lit ''available_tweet_is_RT'') = None \<or> tweet (lit ''available_tweet_info'') = None))"
  by (cases "tweet (lit ''available_tweet_text'')")
     (auto simp: available_content_def projr_getitem)

lemma isl_archived_fields:
  "isl (archived_fields timestamp_parser tweet) \<longleftrightarrow>
     tweet (lit ''archived_tweet_url'') = None \<or> tweet (lit ''parsed_archived_tweet_url'') = None
     \<or> tweet (lit ''original_tweet_url'') = None \<or> tweet (lit ''parsed_tweet_url'') = None
     \<or> tweet (lit ''archived_urlkey'') = None \<or> tweet (lit ''archived_timestamp'') = None
     \<or> tweet (lit ''archived_mimetype'') = None \<or> tweet (lit ''archived_statuscode'') = None
     \<or> tweet (lit ''archived_digest'') = None \<or> tweet (lit ''archived_length'') = None"
  by (auto simp: archived_fields_def)

lemma card_fails_iff:
  "index < length records \<Longrightarrow>
     isl (tweet_card timestamp_parser records index) \<longleftrightarrow> missing_field (records ! index)"
  by (cases "(records ! index) (lit ''available_tweet_text'')")
     (auto simp: tweet_card_def item_def isl_accordions isl_available_content isl_archived_fields
        missing_field_def required_fields_def content_fields_def)

lemma key_only_card:
  "index < length records \<Longrightarrow> key_only (tweet_card timestamp_parser records index)"
  by (simp add: tweet_card_def item_def key_only_html_block
        key_only_accordions key_only_available_content key_only_archived_fields)

lemma page_indices_bound: "index \<in> set (page_indices n page) \<Longrightarrow> index < n"
  by (simp add: page_indices_def end_index_def)

lemma key_only_page: "key_only (page_html timestamp_parser records page)"
  unfolding page_html_def
  by (intro key_only_intros)
     (auto simp: key_only_for_each key_only_card page_indices_bound)

lemma page_fails_iff:
  "isl (page_html timestamp_parser records page) \<longleftrightarrow>
     (\<exists>index\<in>set (page_indices (length records) page). missing_field (records ! index))"
  by (auto simp: page_html_def card_fails_iff page_indices_bound)

lemma key_only_generate: "key_only (generate timestamp_parser self)"
  unfolding generate_def
  by (intro key_only_intros) (auto simp: key_only_for_each key_only_page)

lemma index_on_some_page:
  "index < n \<Longrightarrow> \<exists>page\<in>set (page_numbers n). index \<in> set (page_indices n page)"
proof -
  assume "index < n"
  then have "index \<in> set (concat (map (page_indices n) (page_numbers n)))"
    by (simp add: concat_page_indices)
  then show ?thesis by auto
qed

lemma generate_fails_iff:
  "isl (generate timestamp_parser self) \<longleftrightarrow> (\<exists>tweet\<in>set (json_path self). missing_field tweet)"
proof
  assume "isl (generate timestamp_parser self)"
  then obtain page index where "index \<in> set (page_indices (length (json_path self)) page)"
      and "missing_field (json_path self ! index)"
    by (auto simp: generate_def page_fails_iff)
  then show "\<exists>tweet\<in>set (json_path self). missing_field tweet"
    using page_indices_bound nth_mem by blast
next
  assume "\<exists>tweet\<in>set (json_path self). missing_field tweet"
  then obtain index where i: "index < length (json_path self)" and m: "missing_field (json_path self ! index)"
    by (auto simp: in_set_conv_nth)
  from index_on_some_page [OF i] obtain page where "page \<in> set (page_numbers (length (json_path self)))"
      and "index \<in> set (page_indices (length (json_path self)) page)"
    by blast
  with m show "isl (generate timestamp_parser self)"
    by (auto simp: generate_def page_fails_iff)
qed

text \<open>
  Claim C6. When some record of the list misses one of the expected fields
  (\<open>available_tweet_text\<close>, the four URL fields, \<open>archived_urlkey\<close>,
  \<open>archived_timestamp\<close>, \<open>archived_mimetype\<close>, \<open>archived_statuscode\<close>,
  \<open>archived_digest\<close>, \<open>archived_length\<close>, or, when \<open>available_tweet_text\<close> is truthy,
  \<open>available_tweet_is_RT\<close> or \<open>available_tweet_info\<close>), \<open>generate\<close> raises
  \<open>KeyError\<close>: its outcome is the exception, and no document, partial or other.
\<close>

theorem generate_missing_field:
  "tweet \<in> set (json_path self) \<Longrightarrow> missing_field tweet \<Longrightarrow>
     generate timestamp_parser self = Inl KeyError"
proof -
  assume "tweet \<in> set (json_path self)" and "missing_field tweet"
  then have "isl (generate timestamp_parser self)"
    by (auto simp: generate_fails_iff)
  with key_only_generate [of timestamp_parser self] show ?thesis
    by (cases "generate timestamp_parser self") (simp_all add: key_only_def)
qed

lemma generate_returns:
  "\<forall>tweet\<in>set (json_path self). \<not> missing_field tweet \<Longrightarrow>
     \<exists>doc. generate timestamp_parser self = Inr doc"
  using generate_fails_iff [of timestamp_parser self]
  by (cases "generate timestamp_parser self") auto

lemma sample_complete: "\<not> missing_field (sample_tweet text)"
  by (simp add: missing_field_def required_fields_def content_fields_def sample_tweet_def lit_def)

theorem generate_missing_field_witness:
  "generate py_str
     \<lparr>username = lit ''jack'',
      json_path = [sample_tweet (PStr []), (sample_tweet (PStr []))(lit ''archived_digest'' := None)],
      html_file_path = None\<rparr>
   = Inl KeyError"
proof -
  have "missing_field ((sample_tweet (PStr []))(lit ''archived_digest'' := None))"
    by (simp add: missing_field_def required_fields_def)
  then show ?thesis
    by (intro generate_missing_field [of "(sample_tweet (PStr []))(lit ''archived_digest'' := None)"]) simp_all
qed

section \<open>Occurrences of markup\<close>

lemma lit_Nil: "lit [] = []"
  by (simp add: lit_def)

lemma lit_Cons: "lit (c # s) = of_char c # lit s"
  by (simp add: lit_def)

lemma occurrences_skip:
  "c \<notin> set a \<Longrightarrow> occurrences (c # r) (a @ b) = occurrences (c # r) b"
  by (induction a) auto

lemma dangling_skip:
  "c \<notin> set a \<Longrightarrow> dangling (c # r) (a @ b) = dangling (c # r) b"
  by (induction a) auto

lemma strict_prefix_appendD: "strict_prefix (a @ b) p \<Longrightarrow> strict_prefix a p"
proof -
  assume sp: "strict_prefix (a @ b) p"
  then obtain zs where p: "p = (a @ b) @ zs" and "zs \<noteq> []"
    by (auto simp: strict_prefix_def prefix_def)
  then have "p = a @ (b @ zs)" and "b @ zs \<noteq> []"
    by simp_all
  then show "strict_prefix a p"
    by (auto simp: strict_prefix_def prefix_def)
qed

lemma dangling_append:
  assumes "\<not> dangling p a"
  shows "dangling p (a @ b) = dangling p b"
  using assms
proof (induction a)
  case Nil
  then show ?case by simp
next
  case (Cons c a)
  have "\<not> strict_prefix (c # a @ b) p"
  proof
    assume "strict_prefix (c # a @ b) p"
    then have "strict_prefix ((c # a) @ b) p" by simp
    then have "strict_prefix (c # a) p"
      by (rule strict_prefix_appendD)
    with Cons.prems show False by simp
  qed
  with Cons show ?case by simp
qed

lemma prefix_append_cases:
  "prefix p (a @ b) \<Longrightarrow> prefix p a \<or> strict_prefix a p"
proof -
  assume "prefix p (a @ b)"
  then consider "prefix p a" | us where "p = a @ us"
    by (auto simp: prefix_append)
  then show ?thesis
  proof cases
    case 1
    then show ?thesis by simp
  next
    case 2
    then show ?thesis
      by (cases us) (auto simp: strict_prefix_def)
  qed
qed

lemma occurrences_append:
  assumes "\<not> dangling p a"
  shows "occurrences p (a @ b) = map (\<lambda>t. t @ b) (occurrences p a) @ occurrences p b"
  using assms
proof (induction a)
  case Nil
  then show ?case by simp
next
  case (Cons c a)
  from Cons.prems have nd: "\<not> strict_prefix (c # a) p" and rest: "\<not> dangling p a"
    by simp_all
  have pre: "prefix p (c # a @ b) \<longleftrightarrow> prefix p (c # a)"
  proof
    assume "prefix p (c # a @ b)"
    then have "prefix p ((c # a) @ b)" by simp
    then have "prefix p (c # a) \<or> strict_prefix (c # a) p"
      by (rule prefix_append_cases)
    with nd show "prefix p (c # a)" by blast
  next
    assume "prefix p (c # a)"
    then show "prefix p (c # a @ b)"
      by (metis append_Cons prefix_prefix)
  qed
  have len: "drop (length p) (c # a @ b) = drop (length p) (c # a) @ b" if "prefix p (c # a)"
  proof -
    from that have "length p \<le> length (c # a)"
      by (rule prefix_length_le)
    then show ?thesis
      by (metis append_Cons drop_append diff_is_0_eq drop0)
  qed
  show ?case
    using Cons.IH [OF rest] pre len by simp
qed

lemma quiet_Nil [simp]: "quiet p []"
  by (simp add: quiet_def)

lemma quiet_append: "quiet p a \<Longrightarrow> quiet p b \<Longrightarrow> quiet p (a @ b)"
  by (simp add: quiet_def occurrences_append dangling_append)

lemma quiet_concat: "list_all (quiet p) ts \<Longrightarrow> quiet p (concat ts)"
  by (induction ts) (simp_all add: quiet_append)

lemma quiet_occurrences: "quiet p a \<Longrightarrow> occurrences p (a @ b) = occurrences p b"
  by (simp add: quiet_def occurrences_append)

lemma quiet_dangling: "quiet p a \<Longrightarrow> dangling p (a @ b) = dangling p b"
  by (simp add: quiet_def dangling_append)

lemmas markers = page_marker_def link_marker_def accordion_marker_def content_marker_def

lemmas scan = quiet_def lit_Cons lit_Nil occurrences_skip dangling_skip

lemma counted_0: "counted p 0 s = quiet p s"
  by (simp add: counted_def quiet_def)

lemma counted_append: "counted p m a \<Longrightarrow> counted p n b \<Longrightarrow> counted p (m + n) (a @ b)"
  by (simp add: counted_def occurrences_append dangling_append)

lemma counted_quiet_append: "quiet p a \<Longrightarrow> counted p n b \<Longrightarrow> counted p n (a @ b)"
  using counted_append [of p 0 a n b] by (simp add: counted_0)

lemma counted_append_quiet: "counted p n a \<Longrightarrow> quiet p b \<Longrightarrow> counted p n (a @ b)"
  using counted_append [of p n a 0 b] by (simp add: counted_0)

lemma tagged_Nil: "tagged p [] s = quiet p s"
  by (auto simp: tagged_def quiet_def)

lemma tagged_append:
  assumes "tagged p vs a" and "tagged p ws b"
  shows "tagged p (vs @ ws) (a @ b)"
proof -
  from assms(1) obtain rs where a: "\<not> dangling p a" "list_all (\<lambda>v. 34 \<notin> set v) vs"
      "length rs = length vs" "occurrences p a = map (\<lambda>(v, r). v @ 34 # r) (zip vs rs)"
    by (auto simp: tagged_def)
  from assms(2) obtain ss where b: "\<not> dangling p b" "list_all (\<lambda>v. 34 \<notin> set v) ws"
      "length ss = length ws" "occurrences p b = map (\<lambda>(v, r). v @ 34 # r) (zip ws ss)"
    by (auto simp: tagged_def)
  let ?rests = "map (\<lambda>r. r @ b) rs @ ss"
  have "map (\<lambda>t. t @ b) (map (\<lambda>(v, r). v @ 34 # r) (zip vs rs))
      = map (\<lambda>(v, r). v @ 34 # r) (zip vs (map (\<lambda>r. r @ b) rs))"
    by (simp add: zip_map2 case_prod_unfold)
  with a b have "occurrences p (a @ b) = map (\<lambda>(v, r). v @ 34 # r) (zip (vs @ ws) ?rests)"
    by (simp add: occurrences_append)
  moreover have "length ?rests = length (vs @ ws)"
    using a b by simp
  ultimately have "\<exists>rests. length rests = length (vs @ ws)
      \<and> occurrences p (a @ b) = map (\<lambda>(v, r). v @ 34 # r) (zip (vs @ ws) rests)"
    by blast
  with a b show ?thesis
    unfolding tagged_def by (simp add: dangling_append)
qed

lemma tagged_quiet_append: "quiet p a \<Longrightarrow> tagged p vs b \<Longrightarrow> tagged p vs (a @ b)"
  using tagged_append [of p "[]" a vs b] by (simp add: tagged_Nil)

lemma tagged_append_quiet: "tagged p vs a \<Longrightarrow> quiet p b \<Longrightarrow> tagged p vs (a @ b)"
  using tagged_append [of p vs a "[]" b] by (simp add: tagged_Nil)



section \<open>The markup of the pieces\<close>

lemma quiet_concat_Nil: "quiet p (concat [])"
  by simp

lemma quiet_concat_Cons: "quiet p x \<Longrightarrow> quiet p (concat xs) \<Longrightarrow> quiet p (concat (x # xs))"
  by (simp add: quiet_append)

lemmas quiet_pieces = quiet_concat_Cons quiet_concat_Nil

lemma dec_digits: "set (dec n) \<subseteq> {48 ..< 58}"
proof (induction n rule: dec.induct)
  case (1 n)
  show ?case
  proof (cases "n < 10")
    case True
    then show ?thesis by (subst dec.simps) simp
  next
    case False
    have "n mod 10 < 10" by simp
    then have "48 + n mod 10 \<in> {48 ..< 58}" by auto
    with False 1 show ?thesis by (subst dec.simps) simp
  qed
qed

lemma dec_no_lt [simp]: "60 \<notin> set (dec n)"
  using dec_digits [of n] by auto

lemma dec_no_dq [simp]: "34 \<notin> set (dec n)"
  using dec_digits [of n] by auto

lemma replace_spaces_no_lt [simp]: "60 \<in> set (replace_spaces s) \<longleftrightarrow> 60 \<in> set s"
  by (induction s) (auto simp: replace_spaces_def)



lemma head_quiet_page: "60 \<notin> set u \<Longrightarrow> quiet page_marker (html_head u)"
  unfolding html_head_def by (intro quiet_pieces) (simp_all add: page_marker_def scan)

lemma head_quiet_link: "60 \<notin> set u \<Longrightarrow> quiet link_marker (html_head u)"
  unfolding html_head_def by (intro quiet_pieces) (simp_all add: link_marker_def scan)

lemma tail_quiet_page: "quiet page_marker (html_tail n)"
  unfolding html_tail_def by (intro quiet_pieces) (simp_all add: page_marker_def scan)

lemma tail_quiet_link: "quiet link_marker (html_tail n)"
  unfolding html_tail_def by (intro quiet_pieces) (simp_all add: link_marker_def scan)






section \<open>What a render returns\<close>

lemma returns_Inr [simp]: "returns (Inr x) Q = Q x"
  by (simp add: returns_def)

lemma returns_Inl [simp]: "returns (Inl e) Q"
  by (simp add: returns_def)

lemma returns_ebind [simp]: "returns (ebind m f) Q = returns m (\<lambda>x. returns (f x) Q)"
  by (cases m) simp_all

lemma returns_getitem [simp]:
  "returns (getitem tweet key) Q = (tweet (lit key) \<noteq> None \<longrightarrow> Q (field tweet key))"
  by (auto simp: getitem_def field_def split: option.splits)

lemma returns_item [simp]: "returns (item xs index) Q = (index < length xs \<longrightarrow> Q (xs ! index))"
  by (simp add: item_def)

lemma returnsD: "returns m Q \<Longrightarrow> m = Inr x \<Longrightarrow> Q x"
  by simp

lemma for_each_tagged:
  "list_all2 (\<lambda>x vs. returns (body x) (tagged p vs)) xs vss \<Longrightarrow>
     returns (for_each body xs) (tagged p (concat vss))"
proof (induction xs vss rule: list_all2_induct)
  case Nil
  show ?case by (simp add: tagged_Nil)
next
  case (Cons x xs vs vss)
  then show ?case
    by (cases "body x"; cases "for_each body xs") (simp_all add: tagged_append)
qed

lemma for_each_counted:
  "list_all2 (\<lambda>x n. returns (body x) (counted p n)) xs ns \<Longrightarrow>
     returns (for_each body xs) (counted p (sum_list ns))"
proof (induction xs ns rule: list_all2_induct)
  case Nil
  show ?case by (simp add: counted_0)
next
  case (Cons x xs n ns)
  then show ?case
    by (cases "body x"; cases "for_each body xs") (simp_all add: counted_append)
qed

lemma concat_map_Nil: "concat (map (\<lambda>x. []) xs) = []"
  by (induction xs) simp_all

lemma tagged_Nil_eq: "tagged p [] = quiet p"
  by (rule ext) (simp add: tagged_Nil)

lemma for_each_quiet:
  assumes "\<And>x. x \<in> set xs \<Longrightarrow> returns (body x) (quiet p)"
  shows "returns (for_each body xs) (quiet p)"
proof -
  have "list_all2 (\<lambda>x vs. returns (body x) (tagged p vs)) xs (map (\<lambda>x. []) xs)"
    using assms by (auto simp: list_all2_conv_all_nth tagged_Nil_eq)
  from for_each_tagged [OF this] show ?thesis
    by (simp add: tagged_Nil_eq concat_map_Nil)
qed


lemma html_block_quiet:
  "list_all (\<lambda>s. returns s (quiet p)) stmts \<Longrightarrow> returns (html_block stmts) (quiet p)"
  unfolding html_block_def by (rule for_each_quiet) (simp add: list_all_iff)


lemma html_block_counted:
  "list_all2 (\<lambda>s n. returns s (counted p n)) stmts ns \<Longrightarrow>
     returns (html_block stmts) (counted p (sum_list ns))"
  unfolding html_block_def by (rule for_each_counted)

section \<open>The markup of a card\<close>



lemma counted_head: "counted p n x \<Longrightarrow> quiet p (concat xs) \<Longrightarrow> counted p n (concat (x # xs))"
  by (simp add: counted_append_quiet)

lemma accordion_markup:
  assumes "60 \<notin> set (lit key)" and "60 \<notin> set (py_str value)"
  shows "quiet page_marker (accordion index key value)"
    and "quiet link_marker (accordion index key value)"
    and "counted accordion_marker (Suc 0) (accordion index key value)"
    and "quiet content_marker (accordion index key value)"
proof -
  show "quiet page_marker (accordion index key value)"
    using assms unfolding accordion_def Let_def
    by (intro quiet_pieces) (simp_all add: page_marker_def scan)
  show "quiet link_marker (accordion index key value)"
    using assms unfolding accordion_def Let_def
    by (intro quiet_pieces) (simp_all add: link_marker_def scan)
  show "quiet content_marker (accordion index key value)"
    using assms unfolding accordion_def Let_def
    by (intro quiet_pieces) (simp_all add: content_marker_def scan)
  show "counted accordion_marker (Suc 0) (accordion index key value)"
    using assms unfolding accordion_def Let_def
    by (intro counted_head quiet_pieces) (simp_all add: counted_def accordion_marker_def scan)
qed

lemma key_literals:
  "60 \<notin> set (lit ''Archived Tweet'')" "60 \<notin> set (lit ''Parsed Archived Tweet'')"
  "60 \<notin> set (lit ''Original Tweet'')" "60 \<notin> set (lit ''Parsed Tweet'')"
  by (simp_all add: lit_def)

lemma accordions_markup:
  assumes "\<forall>key\<in>set url_fields. 60 \<notin> set (py_str (field tweet key))"
  shows "returns (accordions index tweet) (quiet page_marker)"
    and "returns (accordions index tweet) (quiet link_marker)"
    and "returns (accordions index tweet)
           (counted accordion_marker (if truthy (field tweet ''available_tweet_text'') then 0 else 4))"
    and "returns (accordions index tweet) (quiet content_marker)"
proof -
  let ?src = "[(''Archived Tweet'', field tweet ''archived_tweet_url''),
               (''Parsed Archived Tweet'', field tweet ''parsed_archived_tweet_url''),
               (''Original Tweet'', field tweet ''original_tweet_url''),
               (''Parsed Tweet'', field tweet ''parsed_tweet_url'')]"
  let ?body = "\<lambda>(key, value). Inr (accordion index key value)"
  from assms have free: "60 \<notin> set (py_str (field tweet ''archived_tweet_url''))"
      "60 \<notin> set (py_str (field tweet ''parsed_archived_tweet_url''))"
      "60 \<notin> set (py_str (field tweet ''original_tweet_url''))"
      "60 \<notin> set (py_str (field tweet ''parsed_tweet_url''))"
    by (simp_all add: url_fields_def)
  have quiet: "returns (for_each ?body ?src) (quiet p)"
    if "\<And>key value. 60 \<notin> set (lit key) \<Longrightarrow> 60 \<notin> set (py_str value)
          \<Longrightarrow> quiet p (accordion index key value)" for p
    using free that by (intro for_each_quiet) (auto simp: key_literals)
  have four: "returns (for_each ?body ?src) (counted accordion_marker (sum_list [1, 1, 1, 1]))"
    using free by (intro for_each_counted) (simp add: accordion_markup key_literals)
  show "returns (accordions index tweet) (quiet page_marker)"
    using quiet [of page_marker]
    by (simp add: accordions_def iframe_src_def accordion_markup del: for_each.simps)
  show "returns (accordions index tweet) (quiet link_marker)"
    using quiet [of link_marker]
    by (simp add: accordions_def iframe_src_def accordion_markup del: for_each.simps)
  show "returns (accordions index tweet) (quiet content_marker)"
    using quiet [of content_marker]
    by (simp add: accordions_def iframe_src_def accordion_markup del: for_each.simps)
  show "returns (accordions index tweet)
      (counted accordion_marker (if truthy (field tweet ''available_tweet_text'') then 0 else 4))"
    using four
    by (simp add: accordions_def iframe_src_def counted_0 eval_nat_numeral del: for_each.simps)
qed

lemma available_content_markup:
  assumes "\<forall>key\<in>set (''available_tweet_text'' # content_fields). 60 \<notin> set (py_str (field tweet key))"
  shows "returns (available_content tweet) (quiet page_marker)"
    and "returns (available_content tweet) (quiet link_marker)"
    and "returns (available_content tweet) (quiet accordion_marker)"
    and "returns (available_content tweet)
           (counted content_marker (if truthy (field tweet ''available_tweet_text'') then 3 else 0))"
proof -
  from assms have free: "60 \<notin> set (py_str (field tweet ''available_tweet_text''))"
      "60 \<notin> set (py_str (field tweet ''available_tweet_is_RT''))"
      "60 \<notin> set (py_str (field tweet ''available_tweet_info''))"
    by (simp_all add: content_fields_def)
  show "returns (available_content tweet) (quiet page_marker)"
    using free by (simp add: available_content_def html_block_quiet page_marker_def scan)
  show "returns (available_content tweet) (quiet link_marker)"
    using free by (simp add: available_content_def html_block_quiet link_marker_def scan)
  show "returns (available_content tweet) (quiet accordion_marker)"
    using free by (simp add: available_content_def html_block_quiet accordion_marker_def scan)
  have "returns (html_block [
           Inr (lit ''<br>\<newline>''),
           ebind (getitem tweet ''available_tweet_text'') (\<lambda>v.
             Inr (lit ''<p><strong class=\"content\">Available Tweet Content:</strong> '' @ py_str v @ lit ''</p>\<newline>'')),
           ebind (getitem tweet ''available_tweet_is_RT'') (\<lambda>v.
             Inr (lit ''<p><strong class=\"content\">Available Tweet Is Retweet:</strong> '' @ py_str v @ lit ''</p>\<newline>'')),
           ebind (getitem tweet ''available_tweet_info'') (\<lambda>v.
             Inr (lit ''<p><strong class=\"content\">Available Tweet Username:</strong> '' @ py_str v @ lit ''</p>\<newline>''))])
        (counted content_marker (sum_list [0, 1, 1, 1]))"
    using free by (intro html_block_counted) (simp add: counted_def content_marker_def scan)
  then show "returns (available_content tweet)
      (counted content_marker (if truthy (field tweet ''available_tweet_text'') then 3 else 0))"
    by (simp add: available_content_def counted_0 eval_nat_numeral)
qed


lemma card_open_quiet:
  "quiet page_marker (lit ''<div class=\"tweet\">\<newline>'')"
  "quiet link_marker (lit ''<div class=\"tweet\">\<newline>'')"
  "quiet accordion_marker (lit ''<div class=\"tweet\">\<newline>'')"
  "quiet content_marker (lit ''<div class=\"tweet\">\<newline>'')"
  by (simp_all add: markers scan)

lemma counted_0_eq: "counted p 0 = quiet p"
  by (rule ext) (simp add: counted_0)


text \<open>A statement's text is part of the text of the block it stands in.\<close>

lemma for_each_part:
  assumes "\<And>a c b. Q c \<Longrightarrow> Q (a @ c @ b)"
    and "x \<in> set xs" and "returns (body x) Q"
  shows "returns (for_each body xs) Q"
  using assms(2,3)
proof (induction xs)
  case Nil
  then show ?case by simp
next
  case (Cons y ys)
  show ?case
  proof (cases "body y"; cases "for_each body ys")
    fix h t
    assume h: "body y = Inr h" and t: "for_each body ys = Inr t"
    show ?thesis
    proof (cases "x = y")
      case True
      with Cons.prems h have "Q h" by simp
      then have "Q ([] @ h @ t)" by (rule assms(1))
      with h t show ?thesis by simp
    next
      case False
      with Cons t have "Q t" by simp
      then have "Q (h @ t @ [])" by (rule assms(1))
      with h t show ?thesis by simp
    qed
  qed simp_all
qed

lemma html_block_part:
  assumes "\<And>a c b. Q c \<Longrightarrow> Q (a @ c @ b)"
    and "s \<in> set stmts" and "returns s Q"
  shows "returns (html_block stmts) Q"
  unfolding html_block_def using assms by (rule for_each_part)

lemma sublist_part: "(P \<longrightarrow> sublist x c) \<Longrightarrow> (P \<longrightarrow> sublist x (a @ c @ b))"
  by (auto simp: sublist_def) (metis append.assoc)

section \<open>Page containers and pagination links\<close>




lemma small_quiet:
  "quiet page_marker (lit ''<br>\<newline>'')" "quiet link_marker (lit ''<br>\<newline>'')"
  "quiet page_marker (lit ''<div class=\"pagination\">\<newline>'')"
  "quiet link_marker (lit ''<div class=\"pagination\">\<newline>'')"
  "quiet page_marker (lit ''</div>\<newline>'')" "quiet link_marker (lit ''</div>\<newline>'')"
  by (simp_all add: markers scan)




lemma lit_eq_iff [simp]: "lit a = lit b \<longleftrightarrow> a = b"
  by (simp add: lit_def inj_map_eq_map inj_on_def)

lemma sample_fields:
  "field (sample_tweet text) ''available_tweet_text'' = text"
  "field (sample_tweet text) ''available_tweet_is_RT'' = PBool False"
  "field (sample_tweet text) ''available_tweet_info'' = PStr (lit ''jack'')"
  "field (sample_tweet text) ''archived_tweet_url'' = PStr (lit ''https://web.archive.org/web/2006/https://twitter.com/jack/status/20'')"
  "field (sample_tweet text) ''parsed_archived_tweet_url'' = PStr (lit ''https://web.archive.org/web/2006/https://twitter.com/jack/status/20'')"
  "field (sample_tweet text) ''original_tweet_url'' = PStr (lit ''https://twitter.com/jack/status/20'')"
  "field (sample_tweet text) ''parsed_tweet_url'' = PStr (lit ''https://twitter.com/jack/status/20'')"
  "field (sample_tweet text) ''archived_urlkey'' = PStr (lit ''com,twitter)/jack/status/20'')"
  "field (sample_tweet text) ''archived_timestamp'' = PStr (lit ''20060321205014'')"
  "field (sample_tweet text) ''archived_mimetype'' = PStr (lit ''text/html'')"
  "field (sample_tweet text) ''archived_statuscode'' = PStr (lit ''200'')"
  "field (sample_tweet text) ''archived_digest'' = PStr (lit ''AAAA'')"
  "field (sample_tweet text) ''archived_length'' = PInt 1024"
  by (simp_all add: field_def sample_tweet_def)

lemma dec_1024: "dec 1024 = lit ''1024''"
  by (simp add: dec.simps lit_def)




section \<open>The empty list\<close>

lemma sublist_concat_mem: "x \<in> set xs \<Longrightarrow> sublist x (concat xs)"
proof -
  assume "x \<in> set xs"
  then obtain ys zs where "xs = ys @ x # zs"
    by (auto simp: in_set_conv_decomp)
  then have "concat xs = concat ys @ x @ concat zs"
    by simp
  then show ?thesis
    by (auto simp: sublist_def)
qed

lemma sublist_left: "sublist x a \<Longrightarrow> sublist x (a @ b)"
  by (auto simp: sublist_def) (metis append.assoc)

lemma heading_in_head:
  "sublist (lit ''<h1>@'' @ user @ lit '''s archived tweets</h1>\<newline>'') (html_head user)"
  unfolding html_head_def by (rule sublist_concat_mem) simp

lemma generate_empty_doc:
  assumes "json_path self = []"
  shows "generate timestamp_parser self =
    Inr (html_head (username self) @ lit ''<br>\<newline>''
      @ lit ''<div class=\"pagination\">\<newline>'' @ lit ''</div>\<newline>'' @ html_tail 0)"
  using assms
  by (simp add: generate_def page_numbers_def html_block_def total_pages_def tweets_per_page_def)

text \<open>
  Claim C4, as amended. For an empty record list \<open>total_pages\<close> is 0 and \<open>generate\<close>
  returns the head, a line break, a pagination block that is still there and has no link
  in it, and the tail. The heading with the username is in it; and when the username
  holds no \<open><\<close>, the document has no page container and no pagination link.
\<close>

theorem generate_empty:
  assumes "json_path self = []"
  shows "total_pages (length (json_path self)) = 0
    \<and> (\<exists>doc. generate timestamp_parser self = Inr doc
          \<and> doc = html_head (username self) @ lit ''<br>\<newline>''
                @ lit ''<div class=\"pagination\">\<newline>'' @ lit ''</div>\<newline>'' @ html_tail 0
          \<and> sublist (lit ''<h1>@'' @ username self @ lit '''s archived tweets</h1>\<newline>'') doc
          \<and> (tag_free (username self) \<longrightarrow>
                occurrences page_marker doc = [] \<and> occurrences link_marker doc = []))"
proof -
  let ?doc = "html_head (username self) @ lit ''<br>\<newline>''
    @ lit ''<div class=\"pagination\">\<newline>'' @ lit ''</div>\<newline>'' @ html_tail 0"
  have zero: "total_pages (length (json_path self)) = 0"
    using assms by (simp add: total_pages_def tweets_per_page_def)
  have doc: "generate timestamp_parser self = Inr ?doc"
    using assms by (rule generate_empty_doc)
  have heading: "sublist (lit ''<h1>@'' @ username self @ lit '''s archived tweets</h1>\<newline>'') ?doc"
    using heading_in_head [of "username self"] by (rule sublist_left)
  have "quiet page_marker ?doc" and "quiet link_marker ?doc" if "tag_free (username self)"
    using that
    by (auto simp: tag_free_def intro!: quiet_append head_quiet_page head_quiet_link small_quiet
          tail_quiet_page tail_quiet_link)
  then have "tag_free (username self) \<longrightarrow>
      occurrences page_marker ?doc = [] \<and> occurrences link_marker ?doc = []"
    by (simp add: quiet_def)
  with zero doc heading show ?thesis
    by blast
qed

theorem generate_empty_witness:
  "total_pages (length ([] :: tweet list)) = 0
   \<and> (\<exists>doc. generate py_str \<lparr>username = lit ''jack'', json_path = [], html_file_path = None\<rparr> = Inr doc
         \<and> doc = html_head (lit ''jack'') @ lit ''<br>\<newline>''
               @ lit ''<div class=\"pagination\">\<newline>'' @ lit ''</div>\<newline>'' @ html_tail 0
         \<and> sublist (lit ''<h1>@'' @ lit ''jack'' @ lit '''s archived tweets</h1>\<newline>'') doc
         \<and> occurrences page_marker doc = [] \<and> occurrences link_marker doc = [])"
proof -
  have "tag_free (lit ''jack'')"
    by (simp add: tag_free_def lit_def)
  with generate_empty [of "\<lparr>username = lit ''jack'', json_path = [], html_file_path = None\<rparr>" py_str]
  show ?thesis
    by simp
qed

lemma concat_counted:
  "list_all2 (counted p) ns pieces \<Longrightarrow> counted p (sum_list ns) (concat pieces)"
proof (induction ns pieces rule: list_all2_induct)
  case Nil
  show ?case by (simp add: counted_0)
next
  case (Cons n ns x xs)
  then show ?case by (simp add: counted_append)
qed

text \<open>
  The claim as stated fails in two ways on an empty list: the pagination block is in the
  document (empty), and a username that holds the markup of a page container puts two
  such containers into it, in the title and in the heading.
\<close>

theorem generate_empty_counterexample:
  "\<not> isl (generate py_str
       \<lparr>username = lit ''<div id=\"page_1\" style=\"display:none;\">'',
        json_path = [], html_file_path = None\<rparr>)
   \<and> sublist (lit ''<div class=\"pagination\">\<newline>'' @ lit ''</div>\<newline>'')
       (projr (generate py_str
         \<lparr>username = lit ''<div id=\"page_1\" style=\"display:none;\">'',
          json_path = [], html_file_path = None\<rparr>))
   \<and> length (occurrences page_marker (projr (generate py_str
         \<lparr>username = lit ''<div id=\"page_1\" style=\"display:none;\">'',
          json_path = [], html_file_path = None\<rparr>))) = 2"
proof -
  let ?user = "lit ''<div id=\"page_1\" style=\"display:none;\">''"
  let ?self = "\<lparr>username = ?user, json_path = [], html_file_path = None\<rparr>"
  let ?rest = "lit ''<br>\<newline>'' @ lit ''<div class=\"pagination\">\<newline>''
    @ lit ''</div>\<newline>'' @ html_tail 0"
  have doc: "generate py_str ?self = Inr (html_head ?user @ ?rest)"
    using generate_empty_doc [of ?self py_str] by simp
  have "counted page_marker
      (sum_list [0, 0, 0, 0, 0, 0, 1, 0, 0, 0, 0, 0, 0, 0, 0, 0, 0, 0, 0, 0, 0, 0, 0, 0, 0, 0, 0,
         0, 0, 1, 0])
      (html_head ?user)"
    unfolding html_head_def
    by (rule concat_counted) (simp add: counted_def page_marker_def scan)
  then have head: "counted page_marker 2 (html_head ?user)"
    by (simp add: eval_nat_numeral)
  have "quiet page_marker ?rest"
    by (intro quiet_append small_quiet tail_quiet_page)
  with head have "counted page_marker 2 (html_head ?user @ ?rest)"
    by (rule counted_append_quiet)
  then have two: "length (occurrences page_marker (html_head ?user @ ?rest)) = 2"
    by (simp add: counted_def)
  have "html_head ?user @ ?rest =
      (html_head ?user @ lit ''<br>\<newline>'')
      @ (lit ''<div class=\"pagination\">\<newline>'' @ lit ''</div>\<newline>'') @ html_tail 0"
    by simp
  then have "sublist (lit ''<div class=\"pagination\">\<newline>'' @ lit ''</div>\<newline>'')
      (html_head ?user @ ?rest)"
    unfolding sublist_def by blast
  with doc two show ?thesis
    by simp
qed

section \<open>The two blocks of a card\<close>

lemma sublist_between: "sublist x c \<Longrightarrow> sublist x (a @ c @ b)"
  by (auto simp: sublist_def) (metis append.assoc)

lemma accordions_part:
  assumes "\<not> truthy (field tweet ''available_tweet_text'')"
    and "(key, source) \<in> set
      [(''Archived Tweet'', ''archived_tweet_url''),
       (''Parsed Archived Tweet'', ''parsed_archived_tweet_url''),
       (''Original Tweet'', ''original_tweet_url''),
       (''Parsed Tweet'', ''parsed_tweet_url'')]"
  shows "returns (accordions index tweet) (sublist (accordion index key (field tweet source)))"
proof -
  let ?src = "[(''Archived Tweet'', field tweet ''archived_tweet_url''),
               (''Parsed Archived Tweet'', field tweet ''parsed_archived_tweet_url''),
               (''Original Tweet'', field tweet ''original_tweet_url''),
               (''Parsed Tweet'', field tweet ''parsed_tweet_url'')]"
  have "returns (for_each (\<lambda>(key, value). Inr (accordion index key value)) ?src)
      (sublist (accordion index key (field tweet source)))"
  proof (rule for_each_part [where x = "(key, field tweet source)"])
    show "(key, field tweet source) \<in> set ?src"
      using assms(2) by auto
  qed (simp_all add: sublist_between)
  with assms(1) show ?thesis
    by (simp add: accordions_def iframe_src_def del: for_each.simps)
qed

lemma content_part:
  assumes "truthy (field tweet ''available_tweet_text'')"
  shows "returns (available_content tweet)
      (sublist (lit ''<p><strong class=\"content\">Available Tweet Content:</strong> ''
         @ py_str (field tweet ''available_tweet_text'') @ lit ''</p>\<newline>''))"
    and "returns (available_content tweet)
      (sublist (lit ''<p><strong class=\"content\">Available Tweet Is Retweet:</strong> ''
         @ py_str (field tweet ''available_tweet_is_RT'') @ lit ''</p>\<newline>''))"
    and "returns (available_content tweet)
      (sublist (lit ''<p><strong class=\"content\">Available Tweet Username:</strong> ''
         @ py_str (field tweet ''available_tweet_info'') @ lit ''</p>\<newline>''))"
proof -
  let ?stmts = "[
     Inr (lit ''<br>\<newline>''),
     ebind (getitem tweet ''available_tweet_text'') (\<lambda>v.
       Inr (lit ''<p><strong class=\"content\">Available Tweet Content:</strong> '' @ py_str v @ lit ''</p>\<newline>'')),
     ebind (getitem tweet ''available_tweet_is_RT'') (\<lambda>v.
       Inr (lit ''<p><strong class=\"content\">Available Tweet Is Retweet:</strong> '' @ py_str v @ lit ''</p>\<newline>'')),
     ebind (getitem tweet ''available_tweet_info'') (\<lambda>v.
       Inr (lit ''<p><strong class=\"content\">Available Tweet Username:</strong> '' @ py_str v @ lit ''</p>\<newline>''))]"
  have part: "returns (html_block ?stmts) (sublist x)"
    if "s \<in> set ?stmts" and "returns s (sublist x)" for s x
    using sublist_between that by (rule html_block_part)
  show "returns (available_content tweet)
      (sublist (lit ''<p><strong class=\"content\">Available Tweet Content:</strong> ''
         @ py_str (field tweet ''available_tweet_text'') @ lit ''</p>\<newline>''))"
    using assms part [of "?stmts ! 1"] by (simp add: available_content_def)
  show "returns (available_content tweet)
      (sublist (lit ''<p><strong class=\"content\">Available Tweet Is Retweet:</strong> ''
         @ py_str (field tweet ''available_tweet_is_RT'') @ lit ''</p>\<newline>''))"
    using assms part [of "?stmts ! 2"] by (simp add: available_content_def)
  show "returns (available_content tweet)
      (sublist (lit ''<p><strong class=\"content\">Available Tweet Username:</strong> ''
         @ py_str (field tweet ''available_tweet_info'') @ lit ''</p>\<newline>''))"
    using assms part [of "?stmts ! 3"] by (simp add: available_content_def)
qed

lemma card_part:
  assumes "returns (accordions index (records ! index)) (sublist x)
      \<or> returns (available_content (records ! index)) (sublist x)"
  shows "returns (tweet_card timestamp_parser records index) (sublist x)"
proof (cases "index < length records")
  case True
  let ?stmts = "[Inr (lit ''<div class=\"tweet\">\<newline>''), accordions index (records ! index),
    available_content (records ! index), archived_fields timestamp_parser (records ! index)]"
  from assms obtain s where "s \<in> set ?stmts" and "returns s (sublist x)"
    by auto
  with sublist_between have "returns (html_block ?stmts) (sublist x)"
    by (rule html_block_part)
  with True show ?thesis
    by (simp add: tweet_card_def)
next
  case False
  then show ?thesis by (simp add: tweet_card_def)
qed

lemma field_update:
  "field (tweet(lit key' \<mapsto> v)) key = (if key = key' then v else field tweet key)"
  by (simp add: field_def)

lemma markup_fields:
  "field markup_tweet ''available_tweet_text'' = PStr []"
  "field markup_tweet ''available_tweet_is_RT'' = PBool False"
  "field markup_tweet ''available_tweet_info'' = PStr (lit ''jack'')"
  "field markup_tweet ''archived_tweet_url'' = PStr (lit ''https://web.archive.org/web/2006/https://twitter.com/jack/status/20'')"
  "field markup_tweet ''parsed_archived_tweet_url'' = PStr (lit ''https://web.archive.org/web/2006/https://twitter.com/jack/status/20'')"
  "field markup_tweet ''original_tweet_url'' = PStr (lit ''https://twitter.com/jack/status/20'')"
  "field markup_tweet ''parsed_tweet_url'' = PStr (lit ''https://twitter.com/jack/status/20'')"
  "field markup_tweet ''archived_urlkey'' = PStr (lit ''com,twitter)/jack/status/20'')"
  "field markup_tweet ''archived_timestamp'' = PStr (lit ''20060321205014'')"
  "field markup_tweet ''archived_mimetype'' = PStr (lit ''<div class=\"accordion\">'')"
  "field markup_tweet ''archived_statuscode'' = PStr (lit ''200'')"
  "field markup_tweet ''archived_digest'' = PStr (lit ''AAAA'')"
  "field markup_tweet ''archived_length'' = PInt 1024"
  by (simp_all add: markup_tweet_def field_update sample_fields)

text \<open>
  The claim as stated fails on a record whose fields hold markup: a field's text is put
  into the card as it is, and the card of this record, whose text is falsy, has five
  collapsible sections.
\<close>

theorem tweet_card_counterexample:
  "\<not> truthy (field markup_tweet ''available_tweet_text'')
   \<and> \<not> isl (tweet_card py_str [markup_tweet] 0)
   \<and> length (occurrences accordion_marker (projr (tweet_card py_str [markup_tweet] 0))) = 5"
proof -
  have "\<not> missing_field markup_tweet"
    by (simp add: missing_field_def required_fields_def content_fields_def sample_tweet_def
          markup_tweet_def)
  with card_fails_iff [of 0 "[markup_tweet]" py_str]
  obtain markup where markup: "tweet_card py_str [markup_tweet] 0 = Inr markup"
    by (cases "tweet_card py_str [markup_tweet] 0") simp_all
  have falsy: "\<not> truthy (field markup_tweet ''available_tweet_text'')"
    by (simp add: markup_fields)
  have urls: "\<forall>key\<in>set url_fields. 60 \<notin> set (py_str (field markup_tweet key))"
    by (simp add: url_fields_def markup_fields lit_def)
  have content: "\<forall>key\<in>set (''available_tweet_text'' # content_fields).
      60 \<notin> set (py_str (field markup_tweet key))"
    by (simp add: content_fields_def markup_fields lit_def)
  have "returns (archived_fields py_str markup_tweet)
      (counted accordion_marker (sum_list [0, 0, 0, 0, 0, 0, 0, 1, 0, 0, 0, 0]))"
    unfolding archived_fields_def
    by (intro html_block_counted)
       (simp add: markup_fields counted_def accordion_marker_def dec_1024 scan)
  then have archived: "returns (archived_fields py_str markup_tweet) (counted accordion_marker 1)"
    by simp
  have "list_all2 (\<lambda>s n. returns s (counted accordion_marker n))
      [Inr (lit ''<div class=\"tweet\">\<newline>''), accordions 0 markup_tweet,
       available_content markup_tweet, archived_fields py_str markup_tweet]
      [0, 4, 0, 1]"
    using falsy accordions_markup(3) [OF urls, of 0] available_content_markup(3) [OF content]
      archived
    by (simp add: counted_0_eq counted_0 card_open_quiet)
  from html_block_counted [OF this]
  have "returns (tweet_card py_str [markup_tweet] 0) (counted accordion_marker 5)"
    by (simp add: tweet_card_def eval_nat_numeral)
  with markup have "length (occurrences accordion_marker markup) = 5"
    by (simp add: counted_def)
  with markup falsy show ?thesis
    by simp
qed

section \<open>The document\<close>

lemma for_each_Inr:
  "for_each body xs = Inr out \<Longrightarrow> out = concat (map (\<lambda>x. projr (body x)) xs)"
proof (induction xs arbitrary: out)
  case Nil
  then show ?case by simp
next
  case (Cons x xs)
  from Cons.prems obtain h t where "body x = Inr h" and "for_each body xs = Inr t" and "out = h @ t"
    by (cases "body x"; cases "for_each body xs") auto
  with Cons.IH show ?case
    by simp
qed

lemma page_html_Inr:
  assumes "page_html timestamp_parser records page = Inr out"
  shows "out = page_open page
    @ concat (map (\<lambda>index. projr (tweet_card timestamp_parser records index))
        (page_indices (length records) page))
    @ lit ''</div>\<newline></div>\<newline>''"
proof -
  from assms obtain cards
    where cards: "for_each (tweet_card timestamp_parser records) (page_indices (length records) page)
        = Inr cards"
      and out: "out = page_open page @ cards @ lit ''</div>\<newline></div>\<newline>''"
    by (cases "for_each (tweet_card timestamp_parser records) (page_indices (length records) page)")
       (auto simp: page_html_def html_block_def)
  from for_each_Inr [OF cards] out show ?thesis
    by simp
qed

lemma generate_document:
  assumes "generate timestamp_parser self = Inr doc"
  shows "doc = html_head (username self)
    @ concat (map (\<lambda>page. page_open page
        @ concat (map (\<lambda>index. projr (tweet_card timestamp_parser (json_path self) index))
            (page_indices (length (json_path self)) page))
        @ lit ''</div>\<newline></div>\<newline>'') (page_numbers (length (json_path self))))
    @ lit ''<br>\<newline>''
    @ lit ''<div class=\"pagination\">\<newline>''
    @ concat (map page_link (page_numbers (length (json_path self))))
    @ lit ''</div>\<newline>''
    @ html_tail (total_pages (length (json_path self)))"
proof -
  let ?pages = "page_numbers (length (json_path self))"
  from assms obtain pages links
    where pages: "for_each (page_html timestamp_parser (json_path self)) ?pages = Inr pages"
      and links: "for_each (\<lambda>page. Inr (page_link page)) ?pages = Inr links"
      and doc: "doc = html_head (username self) @ pages @ lit ''<br>\<newline>''
        @ lit ''<div class=\"pagination\">\<newline>'' @ links @ lit ''</div>\<newline>''
        @ html_tail (total_pages (length (json_path self)))"
    by (cases "for_each (page_html timestamp_parser (json_path self)) ?pages";
        cases "for_each (\<lambda>page. Inr (page_link page)) ?pages")
       (auto simp: generate_def html_block_def)
  have "pages = concat (map (\<lambda>page. projr (page_html timestamp_parser (json_path self) page)) ?pages)"
    using pages by (rule for_each_Inr)
  also have "\<dots> = concat (map (\<lambda>page. page_open page
        @ concat (map (\<lambda>index. projr (tweet_card timestamp_parser (json_path self) index))
            (page_indices (length (json_path self)) page))
        @ lit ''</div>\<newline></div>\<newline>'') ?pages)"
  proof -
    have "projr (page_html timestamp_parser (json_path self) page) = page_open page
        @ concat (map (\<lambda>index. projr (tweet_card timestamp_parser (json_path self) index))
            (page_indices (length (json_path self)) page))
        @ lit ''</div>\<newline></div>\<newline>''" if "page \<in> set ?pages" for page
    proof -
      from pages that have "\<not> isl (page_html timestamp_parser (json_path self) page)"
        by (metis isl_for_each sum.disc(2))
      then obtain out where "page_html timestamp_parser (json_path self) page = Inr out"
        by (cases "page_html timestamp_parser (json_path self) page") auto
      with page_html_Inr [OF this] show ?thesis
        by simp
    qed
    then show ?thesis
      by (metis (no_types, lifting) map_eq_conv)
  qed
  finally have p: "pages = concat (map (\<lambda>page. page_open page
        @ concat (map (\<lambda>index. projr (tweet_card timestamp_parser (json_path self) index))
            (page_indices (length (json_path self)) page))
        @ lit ''</div>\<newline></div>\<newline>'') ?pages)" .
  have "links = concat (map page_link ?pages)"
    using for_each_Inr [OF links] by simp
  with doc p show ?thesis
    by simp
qed

lemma generate_cards:
  assumes "generate timestamp_parser self = Inr doc" and "index < length (json_path self)"
  shows "\<not> isl (tweet_card timestamp_parser (json_path self) index)"
    and "tweet_card timestamp_parser (json_path self) index =
      html_block [
        Inr (lit ''<div class=\"tweet\">\<newline>''),
        accordions index (json_path self ! index),
        available_content (json_path self ! index),
        archived_fields timestamp_parser (json_path self ! index)]"
proof -
  from assms(1) have "\<not> isl (generate timestamp_parser self)"
    by simp
  then have "\<not> missing_field (json_path self ! index)"
    using assms(2) by (simp add: generate_fails_iff)
  with assms(2) show "\<not> isl (tweet_card timestamp_parser (json_path self) index)"
    by (simp add: card_fails_iff)
  from assms(2) show "tweet_card timestamp_parser (json_path self) index =
      html_block [
        Inr (lit ''<div class=\"tweet\">\<newline>''),
        accordions index (json_path self ! index),
        available_content (json_path self ! index),
        archived_fields timestamp_parser (json_path self ! index)]"
    by (simp add: tweet_card_def item_def)
qed

text \<open>
  Claim C1. For a list of \<open>N\<close> records and the page size 24, \<open>generate\<close> computes
  \<open>total_pages\<close> as the ceiling of \<open>N / 24\<close>; every page \<open>k\<close> from 1 to
  \<open>total_pages\<close> reads exactly the records at the positions from \<open>(k - 1) * 24\<close> up
  to, and not including, \<open>min (k * 24) N\<close>; the pages' ranges, one after the other in
  page order, are the positions \<open>0\<close> to \<open>N - 1\<close> in order, so that the pages' records
  are the original sequence with no gap, overlap or reordering. The document that
  \<open>generate\<close> returns holds, between its head and the pagination block, the pages
  \<open>1\<close> to \<open>total_pages\<close> in order, and page \<open>k\<close> is its opening, the cards of the
  positions of its range in order, and its end; the card of a position is rendered from
  the record at that position.
\<close>

theorem pagination_partition:
  "int (total_pages (length (json_path self))) = \<lceil>real (length (json_path self)) / 24\<rceil>
   \<and> (\<forall>page. 1 \<le> page \<and> page \<le> total_pages (length (json_path self)) \<longrightarrow>
         page_indices (length (json_path self)) page
           = [(page - 1) * 24 ..< min (page * 24) (length (json_path self))]
         \<and> page_records (json_path self) page
           = map (\<lambda>index. json_path self ! index)
               [(page - 1) * 24 ..< min (page * 24) (length (json_path self))])
   \<and> concat (map (page_indices (length (json_path self))) (page_numbers (length (json_path self))))
       = [0 ..< length (json_path self)]
   \<and> concat (map (page_records (json_path self)) (page_numbers (length (json_path self))))
       = json_path self
   \<and> (\<forall>doc. generate timestamp_parser self = Inr doc \<longrightarrow>
         doc = html_head (username self)
           @ concat (map (\<lambda>page. page_open page
               @ concat (map (\<lambda>index. projr (tweet_card timestamp_parser (json_path self) index))
                   [(page - 1) * 24 ..< min (page * 24) (length (json_path self))])
               @ lit ''</div>\<newline></div>\<newline>'')
               [1 ..< total_pages (length (json_path self)) + 1])
           @ lit ''<br>\<newline>''
           @ lit ''<div class=\"pagination\">\<newline>''
           @ concat (map page_link [1 ..< total_pages (length (json_path self)) + 1])
           @ lit ''</div>\<newline>''
           @ html_tail (total_pages (length (json_path self)))
         \<and> (\<forall>index < length (json_path self).
               \<not> isl (tweet_card timestamp_parser (json_path self) index)
               \<and> tweet_card timestamp_parser (json_path self) index =
                   html_block [
                     Inr (lit ''<div class=\"tweet\">\<newline>''),
                     accordions index (json_path self ! index),
                     available_content (json_path self ! index),
                     archived_fields timestamp_parser (json_path self ! index)]))"
  (is "_ \<and> _ \<and> _ \<and> _ \<and> ?document")
proof -
  let ?n = "length (json_path self)"
  have document: "doc = html_head (username self)
      @ concat (map (\<lambda>page. page_open page
          @ concat (map (\<lambda>index. projr (tweet_card timestamp_parser (json_path self) index))
              [(page - 1) * 24 ..< min (page * 24) ?n])
          @ lit ''</div>\<newline></div>\<newline>'')
          [1 ..< total_pages ?n + 1])
      @ lit ''<br>\<newline>''
      @ lit ''<div class=\"pagination\">\<newline>''
      @ concat (map page_link [1 ..< total_pages ?n + 1])
      @ lit ''</div>\<newline>''
      @ html_tail (total_pages ?n)"
    if "generate timestamp_parser self = Inr doc" for doc
  proof -
    have pages: "map (\<lambda>page. page_open page
          @ concat (map (\<lambda>index. projr (tweet_card timestamp_parser (json_path self) index))
              (page_indices ?n page))
          @ lit ''</div>\<newline></div>\<newline>'') [1 ..< total_pages ?n + 1]
      = map (\<lambda>page. page_open page
          @ concat (map (\<lambda>index. projr (tweet_card timestamp_parser (json_path self) index))
              [(page - 1) * 24 ..< min (page * 24) ?n])
          @ lit ''</div>\<newline></div>\<newline>'') [1 ..< total_pages ?n + 1]"
    proof (rule map_cong)
      fix page
      assume "page \<in> set [1 ..< total_pages ?n + 1]"
      then have "1 \<le> page"
        by auto
      then show "page_open page
          @ concat (map (\<lambda>index. projr (tweet_card timestamp_parser (json_path self) index))
              (page_indices ?n page))
          @ lit ''</div>\<newline></div>\<newline>''
        = page_open page
          @ concat (map (\<lambda>index. projr (tweet_card timestamp_parser (json_path self) index))
              [(page - 1) * 24 ..< min (page * 24) ?n])
          @ lit ''</div>\<newline></div>\<newline>''"
        by (simp only: page_indices_range)
    qed (rule refl)
    from generate_document [OF that] show ?thesis
      unfolding page_numbers_def pages .
  qed
  have cards: "\<not> isl (tweet_card timestamp_parser (json_path self) index)
      \<and> tweet_card timestamp_parser (json_path self) index =
          html_block [
            Inr (lit ''<div class=\"tweet\">\<newline>''),
            accordions index (json_path self ! index),
            available_content (json_path self ! index),
            archived_fields timestamp_parser (json_path self ! index)]"
    if "generate timestamp_parser self = Inr doc" and "index < ?n" for doc index
    using generate_cards [OF that] by simp
  have ceiling: "int (total_pages ?n) = \<lceil>real ?n / 24\<rceil>"
    by (rule total_pages_ceiling)
  have ranges: "\<forall>page. 1 \<le> page \<and> page \<le> total_pages ?n \<longrightarrow>
      page_indices ?n page = [(page - 1) * 24 ..< min (page * 24) ?n]
      \<and> page_records (json_path self) page
        = map (\<lambda>index. json_path self ! index) [(page - 1) * 24 ..< min (page * 24) ?n]"
    by (simp add: page_indices_range page_records_def)
  have indices: "concat (map (page_indices ?n) (page_numbers ?n)) = [0 ..< ?n]"
    by (rule concat_page_indices)
  have records: "concat (map (page_records (json_path self)) (page_numbers ?n)) = json_path self"
    by (rule concat_page_records)
  have "?document"
    using document cards by blast
  with ceiling ranges indices records show ?thesis
    by blast
qed

theorem pagination_partition_witness:
  "total_pages 25 = 2
   \<and> page_indices 25 1 = [0 ..< 24]
   \<and> page_indices 25 2 = [24]
   \<and> \<not> isl (generate py_str
         \<lparr>username = lit ''jack'', json_path = replicate 25 (sample_tweet (PStr [])),
          html_file_path = None\<rparr>)
   \<and> projr (generate py_str
         \<lparr>username = lit ''jack'', json_path = replicate 25 (sample_tweet (PStr [])),
          html_file_path = None\<rparr>)
       = html_head (lit ''jack'')
         @ (page_open 1
            @ concat (map (\<lambda>index. projr (tweet_card py_str (replicate 25 (sample_tweet (PStr []))) index))
                [0 ..< 24])
            @ lit ''</div>\<newline></div>\<newline>'')
         @ (page_open 2
            @ projr (tweet_card py_str (replicate 25 (sample_tweet (PStr []))) 24)
            @ lit ''</div>\<newline></div>\<newline>'')
         @ lit ''<br>\<newline>''
         @ lit ''<div class=\"pagination\">\<newline>''
         @ page_link 1 @ page_link 2
         @ lit ''</div>\<newline>''
         @ html_tail 2
   \<and> tweet_card py_str (replicate 25 (sample_tweet (PStr []))) 24 =
         html_block [
           Inr (lit ''<div class=\"tweet\">\<newline>''),
           accordions 24 (sample_tweet (PStr [])),
           available_content (sample_tweet (PStr [])),
           archived_fields py_str (sample_tweet (PStr []))]"
proof -
  let ?records = "replicate 25 (sample_tweet (PStr []))"
  let ?self = "\<lparr>username = lit ''jack'', json_path = ?records, html_file_path = None\<rparr>"
  have "\<forall>tweet\<in>set (json_path ?self). \<not> missing_field tweet"
    by (simp add: sample_complete)
  from generate_returns [OF this] obtain doc where doc: "generate py_str ?self = Inr doc"
    by blast
  have pages: "total_pages 25 = 2"
    by (simp add: total_pages_def tweets_per_page_def)
  have numbers: "[1 ..< (3 :: nat)] = [1, 2]" and last: "[24 ..< (25 :: nat)] = [24]"
    by code_simp+
  note facts = pagination_partition [of ?self py_str, unfolded builder.select_convs length_replicate pages]
  note ranges = facts [THEN conjunct2, THEN conjunct1]
  note render = facts [THEN conjunct2, THEN conjunct2, THEN conjunct2, THEN conjunct2, THEN spec,
    THEN mp, OF doc]
  from ranges [THEN spec, of 1] ranges [THEN spec, of 2]
  have first: "page_indices 25 1 = [0 ..< 24]" and second: "page_indices 25 2 = [24]"
    using last by simp_all
  have document: "doc = html_head (lit ''jack'')
      @ (page_open 1
         @ concat (map (\<lambda>index. projr (tweet_card py_str ?records index)) [0 ..< 24])
         @ lit ''</div>\<newline></div>\<newline>'')
      @ (page_open 2
         @ projr (tweet_card py_str ?records 24)
         @ lit ''</div>\<newline></div>\<newline>'')
      @ lit ''<br>\<newline>''
      @ lit ''<div class=\"pagination\">\<newline>''
      @ page_link 1 @ page_link 2
      @ lit ''</div>\<newline>''
      @ html_tail 2"
    using render [THEN conjunct1] numbers last by simp
  from render [THEN conjunct2, THEN spec, of 24]
  have card: "tweet_card py_str ?records 24 =
      html_block [
        Inr (lit ''<div class=\"tweet\">\<newline>''),
        accordions 24 (sample_tweet (PStr [])),
        available_content (sample_tweet (PStr [])),
        archived_fields py_str (sample_tweet (PStr []))]"
    by simp
  from pages first second doc document card show ?thesis
    by simp
qed






section \<open>Texts written as they are\<close>

lemma sealed_suffix:
  "sealed qs b \<Longrightarrow> suffix q qs \<Longrightarrow> q \<noteq> [] \<Longrightarrow> \<not> prefix q b \<and> \<not> prefix b q"
proof (induction qs)
  case Nil
  then show ?case by simp
next
  case (Cons c qs)
  from Cons.prems(2) consider "q = c # qs" | "suffix q qs"
    by (auto simp: suffix_Cons)
  then show ?case
  proof cases
    case 1
    with Cons.prems(1) show ?thesis by simp
  next
    case 2
    with Cons show ?thesis by simp
  qed
qed

lemma sealed_prefix:
  assumes "sealed q b"
  shows "prefix q (u @ b) \<longleftrightarrow> prefix q u"
proof
  assume "prefix q (u @ b)"
  then have "prefix q u \<or> strict_prefix u q"
    by (rule prefix_append_cases)
  moreover have False if "strict_prefix u q"
  proof -
    from that obtain r where q: "q = u @ r" and r: "r \<noteq> []"
      by (auto simp: strict_prefix_def prefix_def)
    with \<open>prefix q (u @ b)\<close> have "prefix r b"
      by simp
    moreover from q have "suffix r q"
      by (simp add: suffix_def)
    ultimately show False
      using sealed_suffix [OF assms _ r] by blast
  qed
  ultimately show "prefix q u"
    by blast
next
  assume "prefix q u"
  then show "prefix q (u @ b)"
    by (rule prefix_prefix)
qed

lemma sealed_strict_prefix:
  assumes "sealed q b"
  shows "\<not> strict_prefix (u @ b) q"
proof
  assume "strict_prefix (u @ b) q"
  then obtain r where q: "q = (u @ b) @ r" and r: "r \<noteq> []"
    by (auto simp: strict_prefix_def prefix_def)
  then have "suffix (b @ r) q" and "b @ r \<noteq> []" and "prefix b (b @ r)"
    by (simp_all add: suffix_def)
  with sealed_suffix [OF assms] show False
    by blast
qed

lemma sealed_tl_prefix:
  assumes "sealed (tl p) b"
  shows "prefix p (c # t @ b) \<longleftrightarrow> prefix p (c # t)"
proof (cases p)
  case Nil
  then show ?thesis by simp
next
  case (Cons x q)
  with assms have "sealed q b"
    by simp
  from sealed_prefix [OF this, of t] Cons show ?thesis
    by simp
qed

lemma sealed_tl_strict_prefix:
  assumes "sealed (tl p) b"
  shows "\<not> strict_prefix (c # t @ b) p"
proof (cases p)
  case Nil
  then show ?thesis by simp
next
  case (Cons x q)
  with assms have "sealed q b"
    by simp
  from sealed_strict_prefix [OF this, of t] Cons show ?thesis
    by simp
qed

lemma drop_prefix_append:
  assumes "prefix p a"
  shows "drop (length p) (a @ b) = drop (length p) a @ b"
proof -
  from assms have "length p \<le> length a"
    by (rule prefix_length_le)
  then show ?thesis
    by simp
qed

lemma occurrences_sealed:
  assumes "sealed (tl p) b"
  shows "occurrences p (t @ b) = map (\<lambda>r. r @ b) (occurrences p t) @ occurrences p b"
proof (induction t)
  case Nil
  show ?case by simp
next
  case (Cons c t)
  have "drop (length p) (c # t @ b) = drop (length p) (c # t) @ b" if "prefix p (c # t)"
    using drop_prefix_append [OF that, of b] by simp
  with Cons sealed_tl_prefix [OF assms, of c t] show ?case
    by simp
qed

lemma dangling_sealed:
  assumes "sealed (tl p) b"
  shows "dangling p (t @ b) = dangling p b"
  using sealed_tl_strict_prefix [OF assms] by (induction t) simp_all

lemma occurrences_free:
  "occurrences p t = [] \<Longrightarrow> sealed (tl p) b \<Longrightarrow> occurrences p (t @ b) = occurrences p b"
  by (simp add: occurrences_sealed)

lemma count_sealed:
  "sealed (tl p) b \<Longrightarrow>
     length (occurrences p (t @ b)) = length (occurrences p t) + length (occurrences p b)"
  by (simp add: occurrences_sealed)

lemma occurrences_no_char: "c \<notin> set t \<Longrightarrow> occurrences (c # r) t = []"
  using occurrences_skip [of c t r "[]"] by simp

lemmas scan_text = scan occurrences_free dangling_sealed count_sealed

lemma counted_concat:
  "list_all2 (counted p) ns pieces \<Longrightarrow> sum_list ns = n \<Longrightarrow> counted p n (concat pieces)"
  using concat_counted [of p ns pieces] by simp

lemma concat_nested:
  "concat [a, b, c, d, e, f, g, h, concat ys] = concat (a # b # c # d # e # f # g # h # ys)"
  by simp

lemma accordion_count:
  assumes "60 \<notin> set (lit key)"
  shows "counted accordion_marker (Suc (length (occurrences accordion_marker (py_str value))))
      (accordion index key value)"
    and "counted content_marker (length (occurrences content_marker (py_str value)))
      (accordion index key value)"
proof -
  show "counted accordion_marker (Suc (length (occurrences accordion_marker (py_str value))))
      (accordion index key value)"
    using assms unfolding accordion_def Let_def concat_nested
    by (rule_tac counted_concat [where ns = "[Suc 0, 0, 0, 0, 0, 0, 0, 0, 0, 0, 0, 0, 0, 0,
          length (occurrences accordion_marker (py_str value)), 0, 0, 0, 0]"])
       (simp_all add: counted_def accordion_marker_def scan_text)
  show "counted content_marker (length (occurrences content_marker (py_str value)))
      (accordion index key value)"
    using assms unfolding accordion_def Let_def concat_nested
    by (rule_tac counted_concat [where ns = "[0, 0, 0, 0, 0, 0, 0, 0, 0, 0, 0, 0, 0, 0,
          length (occurrences content_marker (py_str value)), 0, 0, 0, 0]"])
       (simp_all add: counted_def content_marker_def scan_text)
qed

lemma available_content_accordion:
  "returns (available_content tweet)
     (counted accordion_marker
        (if truthy (field tweet ''available_tweet_text'')
         then sum_list [0, (length (occurrences accordion_marker (py_str (field tweet ''available_tweet_text'')))),
           (length (occurrences accordion_marker (py_str (field tweet ''available_tweet_is_RT'')))),
           (length (occurrences accordion_marker (py_str (field tweet ''available_tweet_info''))))]
         else 0))"
proof -
  have "returns (html_block [
           Inr (lit ''<br>\<newline>''),
           ebind (getitem tweet ''available_tweet_text'') (\<lambda>v.
             Inr (lit ''<p><strong class=\"content\">Available Tweet Content:</strong> '' @ py_str v @ lit ''</p>\<newline>'')),
           ebind (getitem tweet ''available_tweet_is_RT'') (\<lambda>v.
             Inr (lit ''<p><strong class=\"content\">Available Tweet Is Retweet:</strong> '' @ py_str v @ lit ''</p>\<newline>'')),
           ebind (getitem tweet ''available_tweet_info'') (\<lambda>v.
             Inr (lit ''<p><strong class=\"content\">Available Tweet Username:</strong> '' @ py_str v @ lit ''</p>\<newline>''))])
        (counted accordion_marker (sum_list [0, (length (occurrences accordion_marker (py_str (field tweet ''available_tweet_text'')))),
           (length (occurrences accordion_marker (py_str (field tweet ''available_tweet_is_RT'')))),
           (length (occurrences accordion_marker (py_str (field tweet ''available_tweet_info''))))]))"
    by (intro html_block_counted) (simp add: counted_def accordion_marker_def scan_text)
  then show ?thesis
    by (simp add: available_content_def counted_0)
qed

lemma archived_fields_accordion:
  "returns (archived_fields timestamp_parser tweet)
     (counted accordion_marker (sum_list [0,
        length (occurrences accordion_marker (py_str (field tweet ''archived_tweet_url''))) + length (occurrences accordion_marker (py_str (field tweet ''archived_tweet_url''))),
        length (occurrences accordion_marker (py_str (field tweet ''parsed_archived_tweet_url''))) + length (occurrences accordion_marker (py_str (field tweet ''parsed_archived_tweet_url''))),
        length (occurrences accordion_marker (py_str (field tweet ''original_tweet_url''))) + length (occurrences accordion_marker (py_str (field tweet ''original_tweet_url''))),
        length (occurrences accordion_marker (py_str (field tweet ''parsed_tweet_url''))) + length (occurrences accordion_marker (py_str (field tweet ''parsed_tweet_url''))),
        length (occurrences accordion_marker (py_str (field tweet ''archived_urlkey''))),
        length (occurrences accordion_marker (timestamp_parser (field tweet ''archived_timestamp''))) + length (occurrences accordion_marker (py_str (field tweet ''archived_timestamp''))),
        length (occurrences accordion_marker (py_str (field tweet ''archived_mimetype''))),
        length (occurrences accordion_marker (py_str (field tweet ''archived_statuscode''))),
        length (occurrences accordion_marker (py_str (field tweet ''archived_digest''))),
        length (occurrences accordion_marker (py_str (field tweet ''archived_length''))),
        0]))"
  unfolding archived_fields_def
  by (intro html_block_counted) (simp add: counted_def accordion_marker_def scan_text)

lemma accordions_accordion:
  "returns (accordions index tweet)
     (counted accordion_marker
        (if \<not> truthy (field tweet ''available_tweet_text'')
         then sum_list [Suc (length (occurrences accordion_marker (py_str (field tweet ''archived_tweet_url'')))),
           Suc (length (occurrences accordion_marker (py_str (field tweet ''parsed_archived_tweet_url'')))),
           Suc (length (occurrences accordion_marker (py_str (field tweet ''original_tweet_url'')))),
           Suc (length (occurrences accordion_marker (py_str (field tweet ''parsed_tweet_url''))))]
         else 0))"
proof -
  let ?src = "[(''Archived Tweet'', field tweet ''archived_tweet_url''),
               (''Parsed Archived Tweet'', field tweet ''parsed_archived_tweet_url''),
               (''Original Tweet'', field tweet ''original_tweet_url''),
               (''Parsed Tweet'', field tweet ''parsed_tweet_url'')]"
  have "returns (for_each (\<lambda>(key, value). Inr (accordion index key value)) ?src)
      (counted accordion_marker (sum_list [Suc (length (occurrences accordion_marker (py_str (field tweet ''archived_tweet_url'')))),
           Suc (length (occurrences accordion_marker (py_str (field tweet ''parsed_archived_tweet_url'')))),
           Suc (length (occurrences accordion_marker (py_str (field tweet ''original_tweet_url'')))),
           Suc (length (occurrences accordion_marker (py_str (field tweet ''parsed_tweet_url''))))]))"
    by (intro for_each_counted) (simp add: accordion_count key_literals)
  then show ?thesis
    by (simp add: accordions_def iframe_src_def counted_0 del: for_each.simps)
qed

lemma available_content_content:
  "returns (available_content tweet)
     (counted content_marker
        (if truthy (field tweet ''available_tweet_text'')
         then sum_list [0, Suc (length (occurrences content_marker (py_str (field tweet ''available_tweet_text'')))),
           Suc (length (occurrences content_marker (py_str (field tweet ''available_tweet_is_RT'')))),
           Suc (length (occurrences content_marker (py_str (field tweet ''available_tweet_info''))))]
         else 0))"
proof -
  have "returns (html_block [
           Inr (lit ''<br>\<newline>''),
           ebind (getitem tweet ''available_tweet_text'') (\<lambda>v.
             Inr (lit ''<p><strong class=\"content\">Available Tweet Content:</strong> '' @ py_str v @ lit ''</p>\<newline>'')),
           ebind (getitem tweet ''available_tweet_is_RT'') (\<lambda>v.
             Inr (lit ''<p><strong class=\"content\">Available Tweet Is Retweet:</strong> '' @ py_str v @ lit ''</p>\<newline>'')),
           ebind (getitem tweet ''available_tweet_info'') (\<lambda>v.
             Inr (lit ''<p><strong class=\"content\">Available Tweet Username:</strong> '' @ py_str v @ lit ''</p>\<newline>''))])
        (counted content_marker (sum_list [0, Suc (length (occurrences content_marker (py_str (field tweet ''available_tweet_text'')))),
           Suc (length (occurrences content_marker (py_str (field tweet ''available_tweet_is_RT'')))),
           Suc (length (occurrences content_marker (py_str (field tweet ''available_tweet_info''))))]))"
    by (intro html_block_counted) (simp add: counted_def content_marker_def scan_text)
  then show ?thesis
    by (simp add: available_content_def counted_0)
qed

lemma archived_fields_content:
  "returns (archived_fields timestamp_parser tweet)
     (counted content_marker (sum_list [0,
        length (occurrences content_marker (py_str (field tweet ''archived_tweet_url''))) + length (occurrences content_marker (py_str (field tweet ''archived_tweet_url''))),
        length (occurrences content_marker (py_str (field tweet ''parsed_archived_tweet_url''))) + length (occurrences content_marker (py_str (field tweet ''parsed_archived_tweet_url''))),
        length (occurrences content_marker (py_str (field tweet ''original_tweet_url''))) + length (occurrences content_marker (py_str (field tweet ''original_tweet_url''))),
        length (occurrences content_marker (py_str (field tweet ''parsed_tweet_url''))) + length (occurrences content_marker (py_str (field tweet ''parsed_tweet_url''))),
        length (occurrences content_marker (py_str (field tweet ''archived_urlkey''))),
        length (occurrences content_marker (timestamp_parser (field tweet ''archived_timestamp''))) + length (occurrences content_marker (py_str (field tweet ''archived_timestamp''))),
        length (occurrences content_marker (py_str (field tweet ''archived_mimetype''))),
        length (occurrences content_marker (py_str (field tweet ''archived_statuscode''))),
        length (occurrences content_marker (py_str (field tweet ''archived_digest''))),
        length (occurrences content_marker (py_str (field tweet ''archived_length''))),
        0]))"
  unfolding archived_fields_def
  by (intro html_block_counted) (simp add: counted_def content_marker_def scan_text)

lemma accordions_content:
  "returns (accordions index tweet)
     (counted content_marker
        (if \<not> truthy (field tweet ''available_tweet_text'')
         then sum_list [(length (occurrences content_marker (py_str (field tweet ''archived_tweet_url'')))),
           (length (occurrences content_marker (py_str (field tweet ''parsed_archived_tweet_url'')))),
           (length (occurrences content_marker (py_str (field tweet ''original_tweet_url'')))),
           (length (occurrences content_marker (py_str (field tweet ''parsed_tweet_url''))))]
         else 0))"
proof -
  let ?src = "[(''Archived Tweet'', field tweet ''archived_tweet_url''),
               (''Parsed Archived Tweet'', field tweet ''parsed_archived_tweet_url''),
               (''Original Tweet'', field tweet ''original_tweet_url''),
               (''Parsed Tweet'', field tweet ''parsed_tweet_url'')]"
  have "returns (for_each (\<lambda>(key, value). Inr (accordion index key value)) ?src)
      (counted content_marker (sum_list [(length (occurrences content_marker (py_str (field tweet ''archived_tweet_url'')))),
           (length (occurrences content_marker (py_str (field tweet ''parsed_archived_tweet_url'')))),
           (length (occurrences content_marker (py_str (field tweet ''original_tweet_url'')))),
           (length (occurrences content_marker (py_str (field tweet ''parsed_tweet_url''))))]))"
    by (intro for_each_counted) (simp add: accordion_count key_literals)
  then show ?thesis
    by (simp add: accordions_def iframe_src_def counted_0 del: for_each.simps)
qed

lemma tweet_card_accordion:
  "returns (tweet_card timestamp_parser records index)
     (counted accordion_marker
        ((if truthy (field (records ! index) ''available_tweet_text'') then 0 else 4)
         + sum_list (map (\<lambda>t. length (occurrences accordion_marker t))
             (card_texts timestamp_parser (records ! index)))))"
proof (cases "index < length records")
  case True
  let ?tweet = "records ! index"
  obtain a b c where a: "returns (accordions index ?tweet) (counted accordion_marker a)"
      and b: "returns (available_content ?tweet) (counted accordion_marker b)"
      and c: "returns (archived_fields timestamp_parser ?tweet) (counted accordion_marker c)"
      and sum: "a + b + c =
        (if truthy (field ?tweet ''available_tweet_text'') then 0 else 4)
        + sum_list (map (\<lambda>t. length (occurrences accordion_marker t)) (card_texts timestamp_parser ?tweet))"
    using accordions_accordion [of index ?tweet] available_content_accordion [of ?tweet]
      archived_fields_accordion [of timestamp_parser ?tweet]
    by (simp add: card_texts_def url_fields_def content_fields_def)
  have "list_all2 (\<lambda>s n. returns s (counted accordion_marker n))
      [Inr (lit ''<div class=\"tweet\">\<newline>''), accordions index ?tweet,
       available_content ?tweet, archived_fields timestamp_parser ?tweet]
      [0, a, b, c]"
    using a b c by (simp add: counted_0 card_open_quiet)
  from html_block_counted [OF this]
  have "returns (html_block
      [Inr (lit ''<div class=\"tweet\">\<newline>''), accordions index ?tweet,
       available_content ?tweet, archived_fields timestamp_parser ?tweet])
      (counted accordion_marker (a + b + c))"
    by (simp add: add.assoc)
  then have "returns (html_block
      [Inr (lit ''<div class=\"tweet\">\<newline>''), accordions index ?tweet,
       available_content ?tweet, archived_fields timestamp_parser ?tweet])
      (counted accordion_marker
        ((if truthy (field ?tweet ''available_tweet_text'') then 0 else 4)
         + sum_list (map (\<lambda>t. length (occurrences accordion_marker t)) (card_texts timestamp_parser ?tweet))))"
    by (simp only: sum)
  then show ?thesis
    unfolding tweet_card_def by (simp only: returns_ebind returns_item) blast
next
  case False
  then show ?thesis
    by (simp add: tweet_card_def)
qed

lemma tweet_card_content:
  "returns (tweet_card timestamp_parser records index)
     (counted content_marker
        ((if truthy (field (records ! index) ''available_tweet_text'') then 3 else 0)
         + sum_list (map (\<lambda>t. length (occurrences content_marker t))
             (card_texts timestamp_parser (records ! index)))))"
proof (cases "index < length records")
  case True
  let ?tweet = "records ! index"
  obtain a b c where a: "returns (accordions index ?tweet) (counted content_marker a)"
      and b: "returns (available_content ?tweet) (counted content_marker b)"
      and c: "returns (archived_fields timestamp_parser ?tweet) (counted content_marker c)"
      and sum: "a + b + c =
        (if truthy (field ?tweet ''available_tweet_text'') then 3 else 0)
        + sum_list (map (\<lambda>t. length (occurrences content_marker t)) (card_texts timestamp_parser ?tweet))"
    using accordions_content [of index ?tweet] available_content_content [of ?tweet]
      archived_fields_content [of timestamp_parser ?tweet]
    by (simp add: card_texts_def url_fields_def content_fields_def)
  have "list_all2 (\<lambda>s n. returns s (counted content_marker n))
      [Inr (lit ''<div class=\"tweet\">\<newline>''), accordions index ?tweet,
       available_content ?tweet, archived_fields timestamp_parser ?tweet]
      [0, a, b, c]"
    using a b c by (simp add: counted_0 card_open_quiet)
  from html_block_counted [OF this]
  have "returns (html_block
      [Inr (lit ''<div class=\"tweet\">\<newline>''), accordions index ?tweet,
       available_content ?tweet, archived_fields timestamp_parser ?tweet])
      (counted content_marker (a + b + c))"
    by (simp add: add.assoc)
  then have "returns (html_block
      [Inr (lit ''<div class=\"tweet\">\<newline>''), accordions index ?tweet,
       available_content ?tweet, archived_fields timestamp_parser ?tweet])
      (counted content_marker
        ((if truthy (field ?tweet ''available_tweet_text'') then 3 else 0)
         + sum_list (map (\<lambda>t. length (occurrences content_marker t)) (card_texts timestamp_parser ?tweet))))"
    by (simp only: sum)
  then show ?thesis
    unfolding tweet_card_def by (simp only: returns_ebind returns_item) blast
next
  case False
  then show ?thesis
    by (simp add: tweet_card_def)
qed

text \<open>
  Claim C2, as amended. The card of a record has one of the two blocks and not the other.
  When \<open>available_tweet_text\<close> is falsy the card holds the four collapsible sections, of
  Archived Tweet, Parsed Archived Tweet, Original Tweet and Parsed Tweet; when it is truthy
  the card holds the three plain-text content fields (text, retweet flag, username). The
  field texts are written as they are, so the number of section openers
  \<open><div class="accordion">\<close> in the card is four, or none when the text is truthy, and
  those that the texts written by the card hold themselves; the number of content-field
  openers \<open><strong class="content">\<close> is none, or three when the text is truthy, and
  those the texts written hold. On a record whose written texts hold no such opener the
  card has exactly the four sections and no content field, or exactly the three content
  fields and no section.
\<close>

theorem tweet_card_blocks:
  assumes "tweet_card timestamp_parser records index = Inr markup"
  shows "(if truthy (field (records ! index) ''available_tweet_text'')
      then sublist (lit ''<p><strong class=\"content\">Available Tweet Content:</strong> ''
              @ py_str (field (records ! index) ''available_tweet_text'') @ lit ''</p>\<newline>'') markup
         \<and> sublist (lit ''<p><strong class=\"content\">Available Tweet Is Retweet:</strong> ''
              @ py_str (field (records ! index) ''available_tweet_is_RT'') @ lit ''</p>\<newline>'') markup
         \<and> sublist (lit ''<p><strong class=\"content\">Available Tweet Username:</strong> ''
              @ py_str (field (records ! index) ''available_tweet_info'') @ lit ''</p>\<newline>'') markup
      else sublist (accordion index ''Archived Tweet'' (field (records ! index) ''archived_tweet_url'')) markup
         \<and> sublist (accordion index ''Parsed Archived Tweet''
              (field (records ! index) ''parsed_archived_tweet_url'')) markup
         \<and> sublist (accordion index ''Original Tweet'' (field (records ! index) ''original_tweet_url'')) markup
         \<and> sublist (accordion index ''Parsed Tweet'' (field (records ! index) ''parsed_tweet_url'')) markup)
    \<and> length (occurrences accordion_marker markup)
        = (if truthy (field (records ! index) ''available_tweet_text'') then 0 else 4)
          + sum_list (map (\<lambda>t. length (occurrences accordion_marker t))
              (card_texts timestamp_parser (records ! index)))
    \<and> length (occurrences content_marker markup)
        = (if truthy (field (records ! index) ''available_tweet_text'') then 3 else 0)
          + sum_list (map (\<lambda>t. length (occurrences content_marker t))
              (card_texts timestamp_parser (records ! index)))"
  (is "?blocks \<and> ?sections \<and> ?contents")
proof -
  have blocks: ?blocks
  proof (cases "truthy (field (records ! index) ''available_tweet_text'')")
    case True
    from content_part [OF True] assms
    have "sublist (lit ''<p><strong class=\"content\">Available Tweet Content:</strong> ''
          @ py_str (field (records ! index) ''available_tweet_text'') @ lit ''</p>\<newline>'') markup"
      "sublist (lit ''<p><strong class=\"content\">Available Tweet Is Retweet:</strong> ''
          @ py_str (field (records ! index) ''available_tweet_is_RT'') @ lit ''</p>\<newline>'') markup"
      "sublist (lit ''<p><strong class=\"content\">Available Tweet Username:</strong> ''
          @ py_str (field (records ! index) ''available_tweet_info'') @ lit ''</p>\<newline>'') markup"
      using card_part [of index records _ timestamp_parser] by (auto dest: returnsD)
    with True show ?thesis
      by simp
  next
    case False
    have "sublist (accordion index key (field (records ! index) source)) markup"
      if "(key, source) \<in> set
        [(''Archived Tweet'', ''archived_tweet_url''),
         (''Parsed Archived Tweet'', ''parsed_archived_tweet_url''),
         (''Original Tweet'', ''original_tweet_url''),
         (''Parsed Tweet'', ''parsed_tweet_url'')]" for key source
      using accordions_part [OF False that, of index] assms
        card_part [of index records _ timestamp_parser] by (auto dest: returnsD)
    with False show ?thesis
      by simp
  qed
  have sections: ?sections
    using returnsD [OF tweet_card_accordion assms] by (simp add: counted_def)
  have contents: ?contents
    using returnsD [OF tweet_card_content assms] by (simp add: counted_def)
  from blocks sections contents show ?thesis
    by blast
qed

lemma sample_texts:
  "sum_list (map (\<lambda>t. length (occurrences accordion_marker t))
     (card_texts py_str (sample_tweet (PStr [])))) = 0"
  "sum_list (map (\<lambda>t. length (occurrences content_marker t))
     (card_texts py_str (sample_tweet (PStr [])))) = 0"
  "sum_list (map (\<lambda>t. length (occurrences accordion_marker t))
     (card_texts py_str (sample_tweet (PStr (lit ''I <3 twttr''))))) = 0"
  "sum_list (map (\<lambda>t. length (occurrences content_marker t))
     (card_texts py_str (sample_tweet (PStr (lit ''I <3 twttr''))))) = 0"
  by (simp_all add: card_texts_def url_fields_def content_fields_def sample_fields dec_1024
        accordion_marker_def content_marker_def lit_Cons lit_Nil)

theorem tweet_card_blocks_witness:
  "(\<exists>markup. tweet_card py_str [sample_tweet (PStr [])] 0 = Inr markup
      \<and> length (occurrences accordion_marker markup) = 4
      \<and> sublist (accordion 0 ''Original Tweet'' (PStr (lit ''https://twitter.com/jack/status/20'')))
           markup
      \<and> occurrences content_marker markup = [])
   \<and> (\<exists>markup. tweet_card py_str [sample_tweet (PStr (lit ''I <3 twttr''))] 0 = Inr markup
      \<and> occurrences accordion_marker markup = []
      \<and> length (occurrences content_marker markup) = 3
      \<and> sublist (lit ''<p><strong class=\"content\">Available Tweet Content:</strong> ''
           @ lit ''I <3 twttr'' @ lit ''</p>\<newline>'') markup)"
proof -
  have card: "\<exists>markup. tweet_card py_str [sample_tweet t] 0 = Inr markup" for t
    using card_fails_iff [of 0 "[sample_tweet t]" py_str]
    by (cases "tweet_card py_str [sample_tweet t] 0") (simp_all add: sample_complete)
  from card obtain falsy where falsy: "tweet_card py_str [sample_tweet (PStr [])] 0 = Inr falsy"
    by blast
  from card obtain truthy_card where truthy_card:
    "tweet_card py_str [sample_tweet (PStr (lit ''I <3 twttr''))] 0 = Inr truthy_card"
    by blast
  from tweet_card_blocks [OF falsy]
  have first: "length (occurrences accordion_marker falsy) = 4
      \<and> sublist (accordion 0 ''Original Tweet'' (PStr (lit ''https://twitter.com/jack/status/20'')))
           falsy
      \<and> occurrences content_marker falsy = []"
    by (simp add: sample_fields sample_texts)
  have "lit ''I <3 twttr'' \<noteq> []"
    by (simp add: lit_def)
  with tweet_card_blocks [OF truthy_card]
  have "occurrences accordion_marker truthy_card = []
      \<and> length (occurrences content_marker truthy_card) = 3
      \<and> sublist (lit ''<p><strong class=\"content\">Available Tweet Content:</strong> ''
           @ lit ''I <3 twttr'' @ lit ''</p>\<newline>'') truthy_card"
    by (simp add: sample_fields sample_texts)
  with first falsy truthy_card show ?thesis
    by blast
qed

end
